theory Spec2Isabelle
  imports Main "HOL-Library.Sublist" "HOL-Library.Multiset"
begin

section \<open>Data model\<close>

text \<open>
  Instants (\<open>time.Time\<close>) and durations (\<open>time.Duration\<close>) are integers counting
  nanoseconds; an instant counts from a fixed local midnight. The model covers runs whose
  instants and durations stay inside the range of Go's 64-bit duration, so that
  \<open>Add\<close> and \<open>Sub\<close> are plain addition and subtraction.
\<close>

definition Minute :: int where
  "Minute = 60000000000"

definition Hour :: int where
  "Hour = 60 * Minute"

text \<open>\<open>pkg/config/types.go\<close>: the fields of \<open>Config\<close>, \<open>Job\<close> and \<open>JobInstance\<close>
  that the simulation reads.\<close>

record Config =
  MaxActiveLeases :: int
  JobTimeoutDuration :: int
  LeaseWaitTimeout :: int
  SimulationDuration :: int

record Job =
  Name :: string
  Version :: string
  Duration :: int
  CronSchedule :: string

record JobInstance =
  Job :: Job
  StartTime :: int
  EndTime :: int
  LeaseAcquired :: bool
  LeaseWaitTime :: int
  TimedOut :: bool

text \<open>\<open>pkg/simulation/events.go\<close>. The message of an event is kept as the format of
  its \<open>fmt.Sprintf\<close> call together with the arguments.\<close>

datatype EventType =
    EventTypeLeaseAcquired
  | EventTypeLeaseReleased
  | EventTypeJobWaiting
  | EventTypeJobTimeout
  | EventTypeMaxExceeded

datatype Message =
    MsgAcquired string
  | MsgMaxExceeded int int
  | MsgWaiting string
  | MsgReleased string
  | MsgAcquiredAfterWaiting string int
  | MsgWaitTimeout string int
  | MsgWaitTimeoutReleased string int
  | MsgExecTimeout string int

record TimePoint =
  Time :: int
  ActiveLeases :: int
  WaitingJobs :: int

text \<open>An event refers to its job instance by pointer: an address of the store below.\<close>

record Event =
  Time :: int
  Type :: EventType
  JobInstance :: nat
  ActiveLeases :: int
  Message :: Message
  IsWarning :: bool

section \<open>The lease allocation engine\<close>

text \<open>
  The source tree holds two revisions of \<open>simulateLeaseUsage\<close>: the one of
  \<open>pkg/simulation/simulator.go\<close> and the one that follows the event types in
  \<open>pkg/simulation/events.go\<close>. They agree on admission and on the wait timeout and
  differ in the promotion of a waiting job and in the execution timeout. Every phase below
  takes the revision and branches where the two texts differ.
\<close>

datatype revision = SimulatorGo | EventsGo

text \<open>
  Job instances are shared by pointer between the instance slice, the active slice, the
  waiting slice and the events, and are mutated in place. The state therefore holds a
  store from addresses to instances, and the slices hold addresses.
\<close>

record SimState =
  heap :: "nat \<Rightarrow> JobInstance"
  events :: "Event list"
  activeLeases :: int
  activeJobs :: "nat list"
  waitingJobs :: "nat list"
  jobIndex :: nat
  currentTime :: int

definition addEvent :: "Event \<Rightarrow> SimState \<Rightarrow> SimState" where
  "addEvent event s = s\<lparr>events := events s @ [event]\<rparr>"

text \<open>The body of the admission loop, for the instance at address \<open>job\<close>
  (\<open>jobIndex\<close> is already advanced by the caller).\<close>

definition startJob :: "Config \<Rightarrow> nat \<Rightarrow> SimState \<Rightarrow> SimState" where
  "startJob cfg job s =
    (let availableLeases = MaxActiveLeases cfg - activeLeases s in
     if availableLeases > 0 then
       (let s1 = s\<lparr>activeLeases := activeLeases s + 1\<rparr>;
            s2 = s1\<lparr>heap := (heap s1)(job := (heap s1 job)\<lparr>LeaseAcquired := True\<rparr>)\<rparr>;
            s3 = s2\<lparr>activeJobs := activeJobs s2 @ [job]\<rparr>;
            s4 = addEvent \<lparr>Time = currentTime s3, Type = EventTypeLeaseAcquired,
                   JobInstance = job, ActiveLeases = activeLeases s3,
                   Message = MsgAcquired (Name (Job (heap s3 job))),
                   IsWarning = False\<rparr> s3
        in if activeLeases s4 > MaxActiveLeases cfg then
             addEvent \<lparr>Time = currentTime s4, Type = EventTypeMaxExceeded,
               JobInstance = job, ActiveLeases = activeLeases s4,
               Message = MsgMaxExceeded (activeLeases s4) (MaxActiveLeases cfg),
               IsWarning = True\<rparr> s4
           else s4)
     else
       (let s1 = s\<lparr>waitingJobs := waitingJobs s @ [job]\<rparr>;
            s2 = s1\<lparr>heap := (heap s1)(job := (heap s1 job)\<lparr>LeaseWaitTime := 0\<rparr>)\<rparr>
        in addEvent \<lparr>Time = currentTime s2, Type = EventTypeJobWaiting,
             JobInstance = job, ActiveLeases = activeLeases s2,
             Message = MsgWaiting (Name (Job (heap s2 job))),
             IsWarning = True\<rparr> s2))"

text \<open>The admission loop: ``check for jobs that should start''.\<close>

function startJobs :: "Config \<Rightarrow> nat list \<Rightarrow> SimState \<Rightarrow> SimState" where
  "startJobs cfg jobInstances s =
    (if jobIndex s < length jobInstances
        \<and> StartTime (heap s (jobInstances ! jobIndex s)) \<le> currentTime s
     then startJobs cfg jobInstances
            (startJob cfg (jobInstances ! jobIndex s) (s\<lparr>jobIndex := jobIndex s + 1\<rparr>))
     else s)"
  by pat_completeness auto
termination
  by (relation "measure (\<lambda>(cfg, jobInstances, s). length jobInstances - jobIndex s)")
     (auto simp: startJob_def Let_def addEvent_def)

declare startJobs.simps [simp del]

text \<open>The promotion of the head of the waiting slice, inside the completion loop.
  \<open>simulator.go\<close> restarts \<open>StartTime\<close> at the current time; in \<open>events.go\<close> that
  assignment is commented out.\<close>

definition promote :: "revision \<Rightarrow> SimState \<Rightarrow> nat \<times> SimState" where
  "promote rv s =
    (let waitingJob = hd (waitingJobs s);
         s1 = s\<lparr>waitingJobs := tl (waitingJobs s)\<rparr>;
         s2 = s1\<lparr>heap := (heap s1)(waitingJob := (heap s1 waitingJob)\<lparr>LeaseAcquired := True\<rparr>)\<rparr>;
         s3 = (case rv of
                 SimulatorGo \<Rightarrow>
                   s2\<lparr>heap := (heap s2)(waitingJob :=
                         (heap s2 waitingJob)\<lparr>StartTime := currentTime s2\<rparr>)\<rparr>
               | EventsGo \<Rightarrow> s2);
         s4 = s3\<lparr>heap := (heap s3)(waitingJob := (heap s3 waitingJob)
                 \<lparr>EndTime := currentTime s3 + Duration (Job (heap s3 waitingJob))\<rparr>)\<rparr>;
         s5 = s4\<lparr>activeLeases := activeLeases s4 + 1\<rparr>
     in (waitingJob,
         addEvent \<lparr>Time = currentTime s5, Type = EventTypeLeaseAcquired,
           JobInstance = waitingJob, ActiveLeases = activeLeases s5,
           Message = MsgAcquiredAfterWaiting (Name (Job (heap s5 waitingJob)))
                       (LeaseWaitTime (heap s5 waitingJob)),
           IsWarning = False\<rparr> s5))"

text \<open>The release of the lease of a finished job, inside the completion loop.\<close>

definition release :: "nat \<Rightarrow> SimState \<Rightarrow> SimState" where
  "release job s =
    (let s1 = s\<lparr>activeLeases := activeLeases s - 1\<rparr>
     in addEvent \<lparr>Time = currentTime s1, Type = EventTypeLeaseReleased,
          JobInstance = job, ActiveLeases = activeLeases s1,
          Message = MsgReleased (Name (Job (heap s1 job))),
          IsWarning = False\<rparr> s1)"

text \<open>The completion loop: ``check for jobs that should finish''. It ranges over the
  active slice as it was when the loop began; \<open>remainingJobs\<close> collects the survivors
  and the promoted jobs.\<close>

fun finishJobs :: "revision \<Rightarrow> nat list \<Rightarrow> nat list \<Rightarrow> SimState \<Rightarrow> nat list \<times> SimState" where
  "finishJobs rv [] remainingJobs s = (remainingJobs, s)"
| "finishJobs rv (job # jobs) remainingJobs s =
    (if EndTime (heap s job) \<le> currentTime s then
       (let s1 = release job s
        in if length (waitingJobs s1) > 0 then
             (case promote rv s1 of
                (waitingJob, s2) \<Rightarrow> finishJobs rv jobs (remainingJobs @ [waitingJob]) s2)
           else finishJobs rv jobs remainingJobs s1)
     else finishJobs rv jobs (remainingJobs @ [job]) s)"

text \<open>The wait-timeout loop: ``check for waiting job timeouts''. Every waiting job is
  charged five minutes; a job whose wait has reached the limit is flagged and reported
  (the two revisions differ in the text of the message only), the others are kept.\<close>

definition addWait :: "nat \<Rightarrow> SimState \<Rightarrow> SimState" where
  "addWait job s =
     s\<lparr>heap := (heap s)(job := (heap s job)
          \<lparr>LeaseWaitTime := LeaseWaitTime (heap s job) + 5 * Minute\<rparr>)\<rparr>"

definition waitExpire :: "revision \<Rightarrow> nat \<Rightarrow> SimState \<Rightarrow> SimState" where
  "waitExpire rv job s =
    (let s1 = s\<lparr>heap := (heap s)(job := (heap s job)\<lparr>TimedOut := True\<rparr>)\<rparr>
     in addEvent \<lparr>Time = currentTime s1, Type = EventTypeJobTimeout,
          JobInstance = job, ActiveLeases = activeLeases s1,
          Message = (case rv of
              SimulatorGo \<Rightarrow> MsgWaitTimeout (Name (Job (heap s1 job)))
                               (LeaseWaitTime (heap s1 job))
            | EventsGo \<Rightarrow> MsgWaitTimeoutReleased (Name (Job (heap s1 job)))
                            (LeaseWaitTime (heap s1 job))),
          IsWarning = True\<rparr> s1)"

fun waitTimeouts :: "revision \<Rightarrow> Config \<Rightarrow> nat list \<Rightarrow> nat list \<Rightarrow> SimState \<Rightarrow> nat list \<times> SimState" where
  "waitTimeouts rv cfg [] remainingWaitingJobs s = (remainingWaitingJobs, s)"
| "waitTimeouts rv cfg (job # jobs) remainingWaitingJobs s =
    (let s1 = addWait job s
     in if LeaseWaitTime (heap s1 job) \<ge> LeaseWaitTimeout cfg then
          waitTimeouts rv cfg jobs remainingWaitingJobs (waitExpire rv job s1)
        else waitTimeouts rv cfg jobs (remainingWaitingJobs @ [job]) s1)"

text \<open>The execution-timeout loop: ``check for job execution timeouts''.
  \<open>simulator.go\<close> flags the job and reports it, and leaves the lease count and the
  active slice alone (it has no \<open>stillRunning\<close>; the list built here is dropped for
  that revision). \<open>events.go\<close> also decrements \<open>activeLeases\<close> and keeps only the other
  jobs in \<open>stillRunning\<close>, which becomes the active slice.\<close>

definition execExpire :: "revision \<Rightarrow> Config \<Rightarrow> nat \<Rightarrow> SimState \<Rightarrow> SimState" where
  "execExpire rv cfg job s =
    (let s1 = s\<lparr>heap := (heap s)(job := (heap s job)\<lparr>TimedOut := True\<rparr>)\<rparr>;
         s2 = (case rv of
                 SimulatorGo \<Rightarrow> s1
               | EventsGo \<Rightarrow> s1\<lparr>activeLeases := activeLeases s1 - 1\<rparr>)
     in addEvent \<lparr>Time = currentTime s2, Type = EventTypeJobTimeout,
          JobInstance = job, ActiveLeases = activeLeases s2,
          Message = MsgExecTimeout (Name (Job (heap s2 job))) (JobTimeoutDuration cfg),
          IsWarning = True\<rparr> s2)"

fun execTimeouts :: "revision \<Rightarrow> Config \<Rightarrow> nat list \<Rightarrow> nat list \<Rightarrow> SimState \<Rightarrow> nat list \<times> SimState" where
  "execTimeouts rv cfg [] stillRunning s = (stillRunning, s)"
| "execTimeouts rv cfg (job # jobs) stillRunning s =
    (if currentTime s - StartTime (heap s job) \<ge> JobTimeoutDuration cfg
        \<and> \<not> TimedOut (heap s job) then
       execTimeouts rv cfg jobs stillRunning (execExpire rv cfg job s)
     else execTimeouts rv cfg jobs (stillRunning @ [job]) s)"

text \<open>The four phases of one pass of the main loop, each as a state transformer, and
  the pass itself, which ends by moving the clock five minutes on.\<close>

definition admission :: "Config \<Rightarrow> nat list \<Rightarrow> SimState \<Rightarrow> SimState" where
  "admission cfg jobInstances s = startJobs cfg jobInstances s"

definition completion :: "revision \<Rightarrow> SimState \<Rightarrow> SimState" where
  "completion rv s =
    (case finishJobs rv (activeJobs s) [] s of
       (remainingJobs, s') \<Rightarrow> s'\<lparr>activeJobs := remainingJobs\<rparr>)"

definition waitTimeout :: "revision \<Rightarrow> Config \<Rightarrow> SimState \<Rightarrow> SimState" where
  "waitTimeout rv cfg s =
    (case waitTimeouts rv cfg (waitingJobs s) [] s of
       (remainingWaitingJobs, s') \<Rightarrow> s'\<lparr>waitingJobs := remainingWaitingJobs\<rparr>)"

definition execTimeout :: "revision \<Rightarrow> Config \<Rightarrow> SimState \<Rightarrow> SimState" where
  "execTimeout rv cfg s =
    (case execTimeouts rv cfg (activeJobs s) [] s of
       (stillRunning, s') \<Rightarrow>
         (case rv of SimulatorGo \<Rightarrow> s' | EventsGo \<Rightarrow> s'\<lparr>activeJobs := stillRunning\<rparr>))"

definition tick :: "revision \<Rightarrow> Config \<Rightarrow> nat list \<Rightarrow> SimState \<Rightarrow> SimState" where
  "tick rv cfg jobInstances s =
    (let s1 = admission cfg jobInstances s;
         s2 = completion rv s1;
         s3 = waitTimeout rv cfg s2;
         s4 = execTimeout rv cfg s3
     in s4\<lparr>currentTime := currentTime s4 + 5 * Minute\<rparr>)"

text \<open>The main loop of \<open>simulateLeaseUsage\<close>. It runs while the clock is before the end
  of the window or a job is active or waiting, and leaves early once every instance has
  been taken and nothing is active or waiting. \<open>None\<close> stands for a loop that never
  ends.\<close>

definition loopGuard :: "int \<Rightarrow> SimState \<Rightarrow> bool" where
  "loopGuard simulationEnd s \<longleftrightarrow>
     currentTime s < simulationEnd \<or> length (activeJobs s) > 0 \<or> length (waitingJobs s) > 0"

definition loopBreak :: "nat list \<Rightarrow> SimState \<Rightarrow> bool" where
  "loopBreak jobInstances s \<longleftrightarrow>
     jobIndex s \<ge> length jobInstances \<and> length (activeJobs s) = 0 \<and> length (waitingJobs s) = 0"

partial_function (option) mainLoop ::
  "revision \<Rightarrow> Config \<Rightarrow> int \<Rightarrow> nat list \<Rightarrow> SimState \<Rightarrow> SimState option" where
  "mainLoop rv cfg simulationEnd jobInstances s =
    (if loopGuard simulationEnd s then
       (let s' = tick rv cfg jobInstances s
        in if loopBreak jobInstances s' then Some s'
           else mainLoop rv cfg simulationEnd jobInstances s')
     else Some s)"

definition initState :: "(nat \<Rightarrow> JobInstance) \<Rightarrow> int \<Rightarrow> SimState" where
  "initState h simulationStart =
     \<lparr>heap = h, events = [], activeLeases = 0, activeJobs = [], waitingJobs = [],
      jobIndex = 0, currentTime = simulationStart\<rparr>"

definition simulateLeaseUsage ::
  "revision \<Rightarrow> Config \<Rightarrow> int \<Rightarrow> int \<Rightarrow> (nat \<Rightarrow> JobInstance) \<Rightarrow> nat list \<Rightarrow> SimState option" where
  "simulateLeaseUsage rv cfg simulationStart simulationEnd h jobInstances =
     mainLoop rv cfg simulationEnd jobInstances (initState h simulationStart)"

section \<open>The time-series sampler\<close>

text \<open>The inner loop of \<open>generateTimePoints\<close>: ``process all events up to current
  time''. The triple holds \<open>activeLeases\<close>, \<open>waitingJobs\<close> and \<open>eventIndex\<close>.\<close>

function processEvents :: "Event list \<Rightarrow> int \<Rightarrow> int \<times> int \<times> nat \<Rightarrow> int \<times> int \<times> nat" where
  "processEvents evs now (active, waiting, eventIndex) =
    (if eventIndex < length evs \<and> Time (evs ! eventIndex) \<le> now then
       (let event = evs ! eventIndex;
            active' = ActiveLeases event;
            waiting' = (if Type event = EventTypeJobWaiting then waiting + 1
                        else if Type event = EventTypeLeaseAcquired then
                          (if waiting > 0 then waiting - 1 else waiting)
                        else waiting)
        in processEvents evs now (active', waiting', eventIndex + 1))
     else (active, waiting, eventIndex))"
  by pat_completeness auto
termination
  by (relation "measure (\<lambda>(evs, now, active, waiting, eventIndex). length evs - eventIndex)")
     auto

declare processEvents.simps [simp del]

text \<open>The outer loop: one time point every thirty minutes while the sampling time is
  at or before the end of the window.\<close>

function sampleLoop ::
  "Event list \<Rightarrow> int \<Rightarrow> int \<Rightarrow> int \<times> int \<times> nat \<Rightarrow> TimePoint list \<Rightarrow> TimePoint list" where
  "sampleLoop evs simulationEnd now c timePoints =
    (if now \<le> simulationEnd then
       (let c' = processEvents evs now c
        in sampleLoop evs simulationEnd (now + 30 * Minute) c'
             (timePoints @ [\<lparr>TimePoint.Time = now, ActiveLeases = fst c',
                              WaitingJobs = fst (snd c')\<rparr>]))
     else timePoints)"
  by pat_completeness auto
termination
  by (relation "measure (\<lambda>(evs, simulationEnd, now, c, timePoints). nat (simulationEnd - now + 1))")
     (auto simp: Minute_def)

declare sampleLoop.simps [simp del]

text \<open>\<open>generateTimePoints\<close>, on the event log of the simulator and its window; the
  result is the slice of time points, empty before the call.\<close>

definition generateTimePoints :: "Event list \<Rightarrow> int \<Rightarrow> int \<Rightarrow> TimePoint list" where
  "generateTimePoints evs simulationStart simulationEnd =
    (if length evs = 0 then []
     else sampleLoop evs simulationEnd simulationStart (0, 0, 0) [])"

section \<open>The generator of cron instances\<close>

text \<open>
  \<open>generateCronInstances\<close> asks the cron library for a schedule and then for the next
  run after a time. Both are parameters here: \<open>parse\<close> gives the schedule of a cron
  string, or \<open>None\<close> where the library reports an error, and a schedule is its
  function \<open>Next\<close>. The loop has no bound of its own, so it is a partial function:
  \<open>None\<close> stands for a loop that never ends.
\<close>

partial_function (option) cronLoop ::
  "(int \<Rightarrow> int) \<Rightarrow> Job \<Rightarrow> int \<Rightarrow> int \<Rightarrow> JobInstance list \<Rightarrow> JobInstance list option" where
  "cronLoop schedule job simulationEnd now instances =
    (if now < simulationEnd then
       (let nextRun = schedule now
        in if nextRun > simulationEnd then Some instances
           else cronLoop schedule job simulationEnd (nextRun + Minute)
                  (instances @ [\<lparr>Job = job, StartTime = nextRun,
                                  EndTime = nextRun + Duration job,
                                  LeaseAcquired = False, LeaseWaitTime = 0,
                                  TimedOut = False\<rparr>]))
     else Some instances)"

definition generateCronInstances ::
  "(string \<Rightarrow> (int \<Rightarrow> int) option) \<Rightarrow> Job \<Rightarrow> int \<Rightarrow> int \<Rightarrow> JobInstance list option" where
  "generateCronInstances parse job simulationStart simulationEnd =
    (case parse (CronSchedule job) of
       None \<Rightarrow> Some []
     | Some schedule \<Rightarrow> cronLoop schedule job simulationEnd simulationStart [])"

section \<open>The sorting step of the run\<close>

text \<open>
  \<open>Run\<close> sorts the generated instances with \<open>sort.Slice\<close> and the comparison
  ``the start time of the one is before the start time of the other''. \<open>sort.Slice\<close>
  belongs to the Go library, not to this source tree. The library documents that it
  sorts the slice by the given comparison and that the sort is not guaranteed to be
  stable: equal elements may be reversed from their original order. The model is the
  relation that this contract allows between the slice before and the slice after: the
  same elements, and no element before one that is less than it.
\<close>

definition sortSlice :: "('a \<Rightarrow> 'a \<Rightarrow> bool) \<Rightarrow> 'a list \<Rightarrow> 'a list \<Rightarrow> bool" where
  "sortSlice lessFn xs ys \<longleftrightarrow> mset ys = mset xs \<and> sorted_wrt (\<lambda>a b. \<not> lessFn b a) ys"

text \<open>The sorting step of \<open>Run\<close>: the slice holds addresses, the comparison reads the
  start times in the store.\<close>

definition sortJobInstances :: "(nat \<Rightarrow> JobInstance) \<Rightarrow> nat list \<Rightarrow> nat list \<Rightarrow> bool" where
  "sortJobInstances h jobInstances sortedInstances \<longleftrightarrow>
     sortSlice (\<lambda>i j. StartTime (h i) < StartTime (h j)) jobInstances sortedInstances"

section \<open>Observations on states and logs\<close>

text \<open>The instance that the promotion writes back to the store.\<close>

definition promotedInstance :: "revision \<Rightarrow> int \<Rightarrow> JobInstance \<Rightarrow> JobInstance" where
  "promotedInstance rv now j =
     (case rv of
        SimulatorGo \<Rightarrow> j\<lparr>LeaseAcquired := True, StartTime := now, EndTime := now + Duration (Job j)\<rparr>
      | EventsGo \<Rightarrow> j\<lparr>LeaseAcquired := True, EndTime := now + Duration (Job j)\<rparr>)"

text \<open>The lease count agrees with the active slice.\<close>

definition leaseInv :: "SimState \<Rightarrow> bool" where
  "leaseInv s \<longleftrightarrow> activeLeases s = int (length (activeJobs s)) \<and> activeLeases s \<ge> 0"

text \<open>The admission body applied to a list of instances in turn, and the pending
  instances that are due at the current time.\<close>

definition admitAll :: "Config \<Rightarrow> nat list \<Rightarrow> SimState \<Rightarrow> SimState" where
  "admitAll cfg jobs s = foldl (\<lambda>s job. startJob cfg job s) s jobs"

definition dueJobs :: "nat list \<Rightarrow> SimState \<Rightarrow> nat list" where
  "dueJobs jobInstances s =
     filter (\<lambda>p. StartTime (heap s p) \<le> currentTime s) (drop (jobIndex s) jobInstances)"

text \<open>The bookkeeping of one event on the pair of running counters: the active count
  becomes the count the event recorded; the waiting count goes up on a job-waiting event
  and down on a lease-acquired event when it is positive.\<close>

definition applyEvent :: "int \<times> int \<Rightarrow> Event \<Rightarrow> int \<times> int" where
  "applyEvent c event =
     (ActiveLeases event,
      if Type event = EventTypeJobWaiting then snd c + 1
      else if Type event = EventTypeLeaseAcquired \<and> snd c > 0 then snd c - 1
      else snd c)"

definition replay :: "Event list \<Rightarrow> int \<times> int" where
  "replay evs = foldl applyEvent (0, 0) evs"

text \<open>The sampling instants of a window: the start and every thirty minutes after it,
  up to the end inclusive.\<close>

definition samplingInstants :: "int \<Rightarrow> int \<Rightarrow> int list" where
  "samplingInstants simulationStart simulationEnd =
     (if simulationStart \<le> simulationEnd then
        map (\<lambda>k. simulationStart + int k * (30 * Minute))
          [0 ..< nat ((simulationEnd - simulationStart) div (30 * Minute)) + 1]
      else [])"

text \<open>The time point at an instant: the counters after the replay of the longest prefix
  of the log whose events are not later than the instant.\<close>

definition sampleAt :: "Event list \<Rightarrow> int \<Rightarrow> TimePoint" where
  "sampleAt evs t =
     \<lparr>TimePoint.Time = t,
      ActiveLeases = fst (replay (takeWhile (\<lambda>e. Time e \<le> t) evs)),
      WaitingJobs = snd (replay (takeWhile (\<lambda>e. Time e \<le> t) evs))\<rparr>"

text \<open>The occurrence train of a schedule from a search cursor, as a predicate on the list
  of start times: while the cursor is before the end of the window, the next start is
  the schedule's answer at the cursor, it is not after the end, and the cursor moves one
  minute past it; the train ends where the cursor has reached the end or the answer is
  after the end.\<close>

fun occurrenceTrain :: "(int \<Rightarrow> int) \<Rightarrow> int \<Rightarrow> int \<Rightarrow> int list \<Rightarrow> bool" where
  "occurrenceTrain schedule simulationEnd cursor [] \<longleftrightarrow>
     \<not> (cursor < simulationEnd \<and> schedule cursor \<le> simulationEnd)"
| "occurrenceTrain schedule simulationEnd cursor (t # ts) \<longleftrightarrow>
     cursor < simulationEnd \<and> t = schedule cursor \<and> t \<le> simulationEnd
     \<and> occurrenceTrain schedule simulationEnd (t + Minute) ts"

text \<open>Readings of the event log: the instances put on the waiting slice, those promoted
  from it and those released, each in the order of the log. A promotion is the
  lease-acquired event whose message reports the wait.\<close>

definition isPromotion :: "Event \<Rightarrow> bool" where
  "isPromotion e \<longleftrightarrow>
     Type e = EventTypeLeaseAcquired
     \<and> (case Message e of MsgAcquiredAfterWaiting name waited \<Rightarrow> True | _ \<Rightarrow> False)"

definition promotedJobs :: "Event list \<Rightarrow> nat list" where
  "promotedJobs evs = map JobInstance (filter isPromotion evs)"

definition enqueuedJobs :: "Event list \<Rightarrow> nat list" where
  "enqueuedJobs evs = map JobInstance (filter (\<lambda>e. Type e = EventTypeJobWaiting) evs)"

definition releasedJobs :: "Event list \<Rightarrow> nat list" where
  "releasedJobs evs = map JobInstance (filter (\<lambda>e. Type e = EventTypeLeaseReleased) evs)"

text \<open>The completion loop promotes a prefix of the waiting slice, one job for each
  release while jobs are waiting, and rewrites exactly the promoted instances.\<close>

definition finishInv :: "revision \<Rightarrow> SimState \<Rightarrow> nat \<Rightarrow> nat list \<Rightarrow> SimState \<Rightarrow> bool" where
  "finishInv rv s0 k rem s \<longleftrightarrow>
     k \<le> length (waitingJobs s0)
     \<and> waitingJobs s = drop k (waitingJobs s0)
     \<and> currentTime s = currentTime s0
     \<and> jobIndex s = jobIndex s0
     \<and> heap s = (\<lambda>p. if p \<in> set (take k (waitingJobs s0))
                      then promotedInstance rv (currentTime s0) (heap s0 p) else heap s0 p)
     \<and> promotedJobs (events s) = promotedJobs (events s0) @ take k (waitingJobs s0)
     \<and> enqueuedJobs (events s) = enqueuedJobs (events s0)
     \<and> k = min (length (releasedJobs (events s)) - length (releasedJobs (events s0)))
             (length (waitingJobs s0))
     \<and> length (releasedJobs (events s0)) \<le> length (releasedJobs (events s))
     \<and> set (take k (waitingJobs s0)) \<subseteq> set rem"

text \<open>Every instance on the waiting or the active slice has been taken from the instance
  slice, and none is held twice.\<close>

definition ownInv :: "nat list \<Rightarrow> nat list \<Rightarrow> nat list \<Rightarrow> SimState \<Rightarrow> bool" where
  "ownInv jobInstances active waiting s \<longleftrightarrow>
     distinct (waiting @ active)
     \<and> set (waiting @ active) \<subseteq> set (take (jobIndex s) jobInstances)"

text \<open>The promoted instances, in the order of their promotion, followed by the waiting
  slice are in the order of their enqueueing; and the enqueued instances are in the
  order of the instance slice.\<close>

definition fifoInv :: "nat list \<Rightarrow> SimState \<Rightarrow> bool" where
  "fifoInv jobInstances s \<longleftrightarrow>
     subseq (promotedJobs (events s) @ waitingJobs s) (enqueuedJobs (events s))
     \<and> subseq (enqueuedJobs (events s)) (take (jobIndex s) jobInstances)"

text \<open>A waiting instance whose wait reaches the limit with the five minutes of this pass,
  and the event that reports it.\<close>

definition waitExpired :: "Config \<Rightarrow> SimState \<Rightarrow> nat \<Rightarrow> bool" where
  "waitExpired cfg s p \<longleftrightarrow> LeaseWaitTime (heap s p) + 5 * Minute \<ge> LeaseWaitTimeout cfg"

definition waitTimeoutEvent :: "revision \<Rightarrow> SimState \<Rightarrow> nat \<Rightarrow> Event" where
  "waitTimeoutEvent rv s p =
     \<lparr>Time = currentTime s, Type = EventTypeJobTimeout, JobInstance = p,
      ActiveLeases = activeLeases s,
      Message = (case rv of
          SimulatorGo \<Rightarrow> MsgWaitTimeout (Name (Job (heap s p)))
                           (LeaseWaitTime (heap s p) + 5 * Minute)
        | EventsGo \<Rightarrow> MsgWaitTimeoutReleased (Name (Job (heap s p)))
                        (LeaseWaitTime (heap s p) + 5 * Minute)),
      IsWarning = True\<rparr>"

text \<open>An active instance that the execution-timeout loop reports: it has run for the
  timeout or longer, counted from its \<open>StartTime\<close>, and is not flagged yet. The instances
  reported so far are read off the log.\<close>

definition overdue :: "Config \<Rightarrow> SimState \<Rightarrow> nat \<Rightarrow> bool" where
  "overdue cfg s p \<longleftrightarrow>
     currentTime s - StartTime (heap s p) \<ge> JobTimeoutDuration cfg \<and> \<not> TimedOut (heap s p)"

definition isExecTimeout :: "Event \<Rightarrow> bool" where
  "isExecTimeout e \<longleftrightarrow>
     Type e = EventTypeJobTimeout \<and> IsWarning e
     \<and> (case Message e of MsgExecTimeout name limit \<Rightarrow> True | _ \<Rightarrow> False)"

definition timedOutJobs :: "Event list \<Rightarrow> nat list" where
  "timedOutJobs evs = map JobInstance (filter isExecTimeout evs)"

text \<open>No instance is reported twice, and every reported instance is flagged.\<close>

definition onceInv :: "SimState \<Rightarrow> bool" where
  "onceInv s \<longleftrightarrow>
     distinct (timedOutJobs (events s))
     \<and> (\<forall>p\<in>set (timedOutJobs (events s)). TimedOut (heap s p))"

section \<open>Scenarios\<close>

text \<open>A job instance as the generators allocate it: the scheduled start, the end one
  duration later, the other fields at their zero values.\<close>

definition newInstance :: "Job \<Rightarrow> int \<Rightarrow> JobInstance" where
  "newInstance job start =
     \<lparr>Job = job, StartTime = start, EndTime = start + Duration job,
      LeaseAcquired = False, LeaseWaitTime = 0, TimedOut = False\<rparr>"

text \<open>Two jobs of ten minutes each that start together at the start of the window, and
  a single lease. Address 0 holds the instance of the first job, every other address an
  instance of the second.\<close>

definition jobA :: Job where
  "jobA = \<lparr>Name = ''A'', Version = ''4.18'', Duration = 10 * Minute,
            CronSchedule = ''0 */12 * * *''\<rparr>"

definition jobB :: Job where
  "jobB = \<lparr>Name = ''B'', Version = ''4.18'', Duration = 10 * Minute,
            CronSchedule = ''0 */12 * * *''\<rparr>"

text \<open>A long job that holds the single lease while a short one waits.\<close>

definition jobLong :: Job where
  "jobLong = \<lparr>Name = ''L'', Version = ''4.18'', Duration = Hour,
               CronSchedule = ''0 */12 * * *''\<rparr>"

definition heapAB :: "nat \<Rightarrow> JobInstance" where
  "heapAB p = (if p = 0 then newInstance jobA 0 else newInstance jobB 0)"

definition heapLB :: "nat \<Rightarrow> JobInstance" where
  "heapLB p = (if p = 0 then newInstance jobLong 0 else newInstance jobB 0)"

definition cfgAB :: Config where
  "cfgAB = \<lparr>MaxActiveLeases = 1, JobTimeoutDuration = 15 * Minute,
             LeaseWaitTimeout = 30 * Minute, SimulationDuration = Hour\<rparr>"

definition cfg30 :: Config where
  "cfg30 = \<lparr>MaxActiveLeases = 1, JobTimeoutDuration = 8 * Hour,
             LeaseWaitTimeout = 30 * Minute, SimulationDuration = Hour\<rparr>"

text \<open>The schedule \<open>0 */12 * * *\<close> as the cron library evaluates it: the next run after
  a time is the first instant strictly later than it that falls on minute 0 of hour 0 or
  12, that is, the next multiple of twelve hours counted from midnight. The parser of
  the scenario knows this schedule only.\<close>

definition every12h :: "int \<Rightarrow> int" where
  "every12h t = (t div (12 * Hour) + 1) * (12 * Hour)"

definition parse12h :: "string \<Rightarrow> (int \<Rightarrow> int) option" where
  "parse12h str = (if str = ''0 */12 * * *'' then Some every12h else None)"

text \<open>The same schedule under the other reading of the oracle, ``the next occurrence at
  or after a time'': a time on a multiple of twelve hours is its own answer.\<close>

definition atOrAfter12h :: "int \<Rightarrow> int" where
  "atOrAfter12h t = (if t mod (12 * Hour) = 0 then t else every12h t)"

text \<open>Two jobs on the same schedule, seven runs each, twelve hours apart: addresses 0 to
  6 hold the runs of the first job, addresses 7 to 13 those of the second, as the
  generator appends them.\<close>

definition heap14 :: "nat \<Rightarrow> JobInstance" where
  "heap14 p = newInstance (if p < 7 then jobA else jobB) ((int (p mod 7) + 1) * (12 * Hour))"

text \<open>Two jobs on different schedules: the first runs at 12 and at 24 hours (addresses 0
  and 1), the second at 6 hours (address 2).\<close>

definition heap3 :: "nat \<Rightarrow> JobInstance" where
  "heap3 p = (if p = 0 then newInstance jobA (12 * Hour)
              else if p = 1 then newInstance jobA (24 * Hour)
              else newInstance jobB (6 * Hour))"

section \<open>Basic properties of the steps\<close>

text \<open>The equations that evaluate the engine on the scenarios.\<close>

lemmas engine_eval =
  tick_def admission_def completion_def waitTimeout_def execTimeout_def
  startJobs.simps startJob_def promote_def release_def addWait_def waitExpire_def
  execExpire_def addEvent_def initState_def Let_def
  heapAB_def cfgAB_def jobA_def jobB_def newInstance_def Minute_def Hour_def

text \<open>What each step leaves in each field of the state.\<close>

lemma addEvent_fields [simp]:
  "heap (addEvent e s) = heap s"
  "events (addEvent e s) = events s @ [e]"
  "activeLeases (addEvent e s) = activeLeases s"
  "activeJobs (addEvent e s) = activeJobs s"
  "waitingJobs (addEvent e s) = waitingJobs s"
  "jobIndex (addEvent e s) = jobIndex s"
  "currentTime (addEvent e s) = currentTime s"
  by (simp_all add: addEvent_def)

lemma startJob_admit:
  "activeLeases s < MaxActiveLeases cfg \<Longrightarrow>
   startJob cfg job s =
     s\<lparr>heap := (heap s)(job := (heap s job)\<lparr>LeaseAcquired := True\<rparr>),
       events := events s @ [\<lparr>Time = currentTime s, Type = EventTypeLeaseAcquired,
                   JobInstance = job, ActiveLeases = activeLeases s + 1,
                   Message = MsgAcquired (Name (Job (heap s job))),
                   IsWarning = False\<rparr>],
       activeLeases := activeLeases s + 1,
       activeJobs := activeJobs s @ [job]\<rparr>"
  by (simp add: startJob_def Let_def addEvent_def)

lemma startJob_wait:
  "\<not> activeLeases s < MaxActiveLeases cfg \<Longrightarrow>
   startJob cfg job s =
     s\<lparr>heap := (heap s)(job := (heap s job)\<lparr>LeaseWaitTime := 0\<rparr>),
       events := events s @ [\<lparr>Time = currentTime s, Type = EventTypeJobWaiting,
                   JobInstance = job, ActiveLeases = activeLeases s,
                   Message = MsgWaiting (Name (Job (heap s job))),
                   IsWarning = True\<rparr>],
       waitingJobs := waitingJobs s @ [job]\<rparr>"
  by (simp add: startJob_def Let_def addEvent_def)

lemma release_fields [simp]:
  "heap (release job s) = heap s"
  "events (release job s) = events s @ [\<lparr>Time = currentTime s, Type = EventTypeLeaseReleased,
          JobInstance = job, ActiveLeases = activeLeases s - 1,
          Message = MsgReleased (Name (Job (heap s job))),
          IsWarning = False\<rparr>]"
  "activeLeases (release job s) = activeLeases s - 1"
  "activeJobs (release job s) = activeJobs s"
  "waitingJobs (release job s) = waitingJobs s"
  "jobIndex (release job s) = jobIndex s"
  "currentTime (release job s) = currentTime s"
  by (simp_all add: release_def Let_def)

lemma promote_fields [simp]:
  "fst (promote rv s) = hd (waitingJobs s)"
  "heap (snd (promote rv s)) =
     (heap s)(hd (waitingJobs s) := promotedInstance rv (currentTime s) (heap s (hd (waitingJobs s))))"
  "events (snd (promote rv s)) = events s @ [\<lparr>Time = currentTime s, Type = EventTypeLeaseAcquired,
           JobInstance = hd (waitingJobs s), ActiveLeases = activeLeases s + 1,
           Message = MsgAcquiredAfterWaiting (Name (Job (heap s (hd (waitingJobs s)))))
                       (LeaseWaitTime (heap s (hd (waitingJobs s)))),
           IsWarning = False\<rparr>]"
  "activeLeases (snd (promote rv s)) = activeLeases s + 1"
  "activeJobs (snd (promote rv s)) = activeJobs s"
  "waitingJobs (snd (promote rv s)) = tl (waitingJobs s)"
  "jobIndex (snd (promote rv s)) = jobIndex s"
  "currentTime (snd (promote rv s)) = currentTime s"
  by (simp_all add: promote_def Let_def promotedInstance_def split: revision.splits)

lemma addWait_fields [simp]:
  "heap (addWait job s) = (heap s)(job := (heap s job)
          \<lparr>LeaseWaitTime := LeaseWaitTime (heap s job) + 5 * Minute\<rparr>)"
  "events (addWait job s) = events s"
  "activeLeases (addWait job s) = activeLeases s"
  "activeJobs (addWait job s) = activeJobs s"
  "waitingJobs (addWait job s) = waitingJobs s"
  "jobIndex (addWait job s) = jobIndex s"
  "currentTime (addWait job s) = currentTime s"
  by (simp_all add: addWait_def)

lemma waitExpire_fields [simp]:
  "heap (waitExpire rv job s) = (heap s)(job := (heap s job)\<lparr>TimedOut := True\<rparr>)"
  "events (waitExpire rv job s) = events s @ [\<lparr>Time = currentTime s, Type = EventTypeJobTimeout,
          JobInstance = job, ActiveLeases = activeLeases s,
          Message = (case rv of
              SimulatorGo \<Rightarrow> MsgWaitTimeout (Name (Job (heap s job))) (LeaseWaitTime (heap s job))
            | EventsGo \<Rightarrow> MsgWaitTimeoutReleased (Name (Job (heap s job))) (LeaseWaitTime (heap s job))),
          IsWarning = True\<rparr>]"
  "activeLeases (waitExpire rv job s) = activeLeases s"
  "activeJobs (waitExpire rv job s) = activeJobs s"
  "waitingJobs (waitExpire rv job s) = waitingJobs s"
  "jobIndex (waitExpire rv job s) = jobIndex s"
  "currentTime (waitExpire rv job s) = currentTime s"
  by (simp_all add: waitExpire_def Let_def split: revision.splits)

lemma execExpire_fields [simp]:
  "heap (execExpire rv cfg job s) = (heap s)(job := (heap s job)\<lparr>TimedOut := True\<rparr>)"
  "events (execExpire rv cfg job s) = events s @ [\<lparr>Time = currentTime s, Type = EventTypeJobTimeout,
          JobInstance = job,
          ActiveLeases = (case rv of SimulatorGo \<Rightarrow> activeLeases s | EventsGo \<Rightarrow> activeLeases s - 1),
          Message = MsgExecTimeout (Name (Job (heap s job))) (JobTimeoutDuration cfg),
          IsWarning = True\<rparr>]"
  "activeLeases (execExpire rv cfg job s) =
     (case rv of SimulatorGo \<Rightarrow> activeLeases s | EventsGo \<Rightarrow> activeLeases s - 1)"
  "activeJobs (execExpire rv cfg job s) = activeJobs s"
  "waitingJobs (execExpire rv cfg job s) = waitingJobs s"
  "jobIndex (execExpire rv cfg job s) = jobIndex s"
  "currentTime (execExpire rv cfg job s) = currentTime s"
  by (simp_all add: execExpire_def Let_def split: revision.splits)

text \<open>One rule per loop: a property that holds before the loop and is kept by each
  branch of its body holds after it. The property also sees the jobs still to visit.\<close>

lemma startJobs_rule:
  "P s \<Longrightarrow>
   (\<And>s. P s \<Longrightarrow> jobIndex s < length jis \<Longrightarrow>
           StartTime (heap s (jis ! jobIndex s)) \<le> currentTime s \<Longrightarrow>
           P (startJob cfg (jis ! jobIndex s) (s\<lparr>jobIndex := jobIndex s + 1\<rparr>))) \<Longrightarrow>
   P (startJobs cfg jis s)"
proof (induction cfg jis s rule: startJobs.induct)
  case (1 cfg jobInstances s)
  show ?case
  proof (cases "jobIndex s < length jobInstances
        \<and> StartTime (heap s (jobInstances ! jobIndex s)) \<le> currentTime s")
    case True
    then show ?thesis
      using 1 by (subst startJobs.simps) simp
  next
    case False
    then show ?thesis using 1 by (subst startJobs.simps) simp
  qed
qed

lemma finishJobs_rule:
  assumes "Q jobs rem s"
    and "\<And>job jobs rem s. Q (job # jobs) rem s \<Longrightarrow> \<not> EndTime (heap s job) \<le> currentTime s \<Longrightarrow>
           Q jobs (rem @ [job]) s"
    and "\<And>job jobs rem s. Q (job # jobs) rem s \<Longrightarrow> EndTime (heap s job) \<le> currentTime s \<Longrightarrow>
           waitingJobs s = [] \<Longrightarrow> Q jobs rem (release job s)"
    and "\<And>job jobs rem s. Q (job # jobs) rem s \<Longrightarrow> EndTime (heap s job) \<le> currentTime s \<Longrightarrow>
           waitingJobs s \<noteq> [] \<Longrightarrow>
           Q jobs (rem @ [hd (waitingJobs s)]) (snd (promote rv (release job s)))"
  shows "Q [] (fst (finishJobs rv jobs rem s)) (snd (finishJobs rv jobs rem s))"
  using assms(1)
proof (induction jobs arbitrary: rem s)
  case Nil
  then show ?case by simp
next
  case (Cons job jobs)
  show ?case
  proof (cases "EndTime (heap s job) \<le> currentTime s")
    case False
    then show ?thesis
      using Cons.IH[OF assms(2)[OF Cons.prems False]] by simp
  next
    case True
    show ?thesis
    proof (cases "waitingJobs s = []")
      case e: True
      then show ?thesis
        using True Cons.IH[OF assms(3)[OF Cons.prems True e]] by (simp add: Let_def)
    next
      case ne: False
      then show ?thesis
        using True Cons.IH[OF assms(4)[OF Cons.prems True ne]]
        by (simp add: Let_def case_prod_beta)
    qed
  qed
qed

lemma waitTimeouts_rule:
  assumes "Q jobs rem s"
    and "\<And>job jobs rem s. Q (job # jobs) rem s \<Longrightarrow>
           LeaseWaitTime (heap s job) + 5 * Minute \<ge> LeaseWaitTimeout cfg \<Longrightarrow>
           Q jobs rem (waitExpire rv job (addWait job s))"
    and "\<And>job jobs rem s. Q (job # jobs) rem s \<Longrightarrow>
           \<not> LeaseWaitTime (heap s job) + 5 * Minute \<ge> LeaseWaitTimeout cfg \<Longrightarrow>
           Q jobs (rem @ [job]) (addWait job s)"
  shows "Q [] (fst (waitTimeouts rv cfg jobs rem s)) (snd (waitTimeouts rv cfg jobs rem s))"
  using assms(1)
proof (induction jobs arbitrary: rem s)
  case Nil
  then show ?case by simp
next
  case (Cons job jobs)
  show ?case
  proof (cases "LeaseWaitTime (heap s job) + 5 * Minute \<ge> LeaseWaitTimeout cfg")
    case True
    then show ?thesis
      using Cons.IH[OF assms(2)[OF Cons.prems True]] by (simp add: Let_def)
  next
    case False
    then show ?thesis
      using Cons.IH[OF assms(3)[OF Cons.prems False]] by (simp add: Let_def)
  qed
qed

lemma execTimeouts_rule:
  assumes "Q jobs rem s"
    and "\<And>job jobs rem s. Q (job # jobs) rem s \<Longrightarrow>
           currentTime s - StartTime (heap s job) \<ge> JobTimeoutDuration cfg \<Longrightarrow>
           \<not> TimedOut (heap s job) \<Longrightarrow>
           Q jobs rem (execExpire rv cfg job s)"
    and "\<And>job jobs rem s. Q (job # jobs) rem s \<Longrightarrow>
           \<not> (currentTime s - StartTime (heap s job) \<ge> JobTimeoutDuration cfg
              \<and> \<not> TimedOut (heap s job)) \<Longrightarrow>
           Q jobs (rem @ [job]) s"
  shows "Q [] (fst (execTimeouts rv cfg jobs rem s)) (snd (execTimeouts rv cfg jobs rem s))"
  using assms(1)
proof (induction jobs arbitrary: rem s)
  case Nil
  then show ?case by simp
next
  case (Cons job jobs)
  show ?case
  proof (cases "currentTime s - StartTime (heap s job) \<ge> JobTimeoutDuration cfg
              \<and> \<not> TimedOut (heap s job)")
    case True
    then show ?thesis
      using Cons.IH[OF assms(2)[OF Cons.prems]] by simp
  next
    case False
    have "execTimeouts rv cfg (job # jobs) rem s = execTimeouts rv cfg jobs (rem @ [job]) s"
      using False by auto
    then show ?thesis
      using Cons.IH[OF assms(3)[OF Cons.prems False]] by simp
  qed
qed

section \<open>The lease count and the active slice\<close>

lemma startJob_leaseInv: "leaseInv s \<Longrightarrow> leaseInv (startJob cfg job (s\<lparr>jobIndex := k\<rparr>))"
  by (simp add: leaseInv_def startJob_def Let_def addEvent_def)

lemma admission_leaseInv: "leaseInv s \<Longrightarrow> leaseInv (admission cfg jis s)"
  unfolding admission_def
  by (rule startJobs_rule) (auto intro: startJob_leaseInv)

lemma completion_leaseInv:
  assumes "leaseInv s"
  shows "leaseInv (completion rv s)"
proof -
  let ?Q = "\<lambda>(jobs::nat list) (rem::nat list) s. activeLeases s = int (length rem) + int (length jobs)"
  have "?Q [] (fst (finishJobs rv (activeJobs s) [] s)) (snd (finishJobs rv (activeJobs s) [] s))"
    by (rule finishJobs_rule[where Q = ?Q]) (use assms in \<open>simp_all add: leaseInv_def\<close>)
  then show ?thesis
    by (simp add: completion_def leaseInv_def case_prod_beta)
qed

lemma waitTimeout_frame:
  "activeLeases (waitTimeout rv cfg s) = activeLeases s \<and>
   activeJobs (waitTimeout rv cfg s) = activeJobs s \<and>
   jobIndex (waitTimeout rv cfg s) = jobIndex s \<and>
   currentTime (waitTimeout rv cfg s) = currentTime s"
proof -
  let ?Q = "\<lambda>(jobs::nat list) (rem::nat list) s'. activeLeases s' = activeLeases s \<and>
     activeJobs s' = activeJobs s \<and> jobIndex s' = jobIndex s \<and> currentTime s' = currentTime s"
  have "?Q [] (fst (waitTimeouts rv cfg (waitingJobs s) [] s))
          (snd (waitTimeouts rv cfg (waitingJobs s) [] s))"
    by (rule waitTimeouts_rule[where Q = ?Q]) simp_all
  then show ?thesis
    by (simp add: waitTimeout_def case_prod_beta)
qed

lemma waitTimeout_leaseInv: "leaseInv s \<Longrightarrow> leaseInv (waitTimeout rv cfg s)"
  using waitTimeout_frame[of rv cfg s] by (simp add: leaseInv_def)

lemma execTimeout_SimulatorGo_frame:
  "activeLeases (execTimeout SimulatorGo cfg s) = activeLeases s \<and>
   activeJobs (execTimeout SimulatorGo cfg s) = activeJobs s \<and>
   waitingJobs (execTimeout SimulatorGo cfg s) = waitingJobs s \<and>
   jobIndex (execTimeout SimulatorGo cfg s) = jobIndex s \<and>
   currentTime (execTimeout SimulatorGo cfg s) = currentTime s"
proof -
  let ?Q = "\<lambda>(jobs::nat list) (rem::nat list) s'. activeLeases s' = activeLeases s \<and>
     activeJobs s' = activeJobs s \<and> waitingJobs s' = waitingJobs s \<and>
     jobIndex s' = jobIndex s \<and> currentTime s' = currentTime s"
  have "?Q [] (fst (execTimeouts SimulatorGo cfg (activeJobs s) [] s))
          (snd (execTimeouts SimulatorGo cfg (activeJobs s) [] s))"
    by (rule execTimeouts_rule[where Q = ?Q]) simp_all
  then show ?thesis
    by (simp add: execTimeout_def case_prod_beta)
qed

lemma execTimeout_EventsGo_count:
  "activeLeases (execTimeout EventsGo cfg s) - int (length (activeJobs (execTimeout EventsGo cfg s)))
     = activeLeases s - int (length (activeJobs s))"
proof -
  let ?Q = "\<lambda>(jobs::nat list) (rem::nat list) s'.
     activeLeases s' - int (length rem) - int (length jobs) = activeLeases s - int (length (activeJobs s))"
  have "?Q [] (fst (execTimeouts EventsGo cfg (activeJobs s) [] s))
          (snd (execTimeouts EventsGo cfg (activeJobs s) [] s))"
    by (rule execTimeouts_rule[where Q = ?Q]) simp_all
  then show ?thesis
    by (simp add: execTimeout_def case_prod_beta)
qed

lemma execTimeout_leaseInv: "leaseInv s \<Longrightarrow> leaseInv (execTimeout rv cfg s)"
  using execTimeout_SimulatorGo_frame[of cfg s] execTimeout_EventsGo_count[of cfg s]
  by (cases rv) (simp_all add: leaseInv_def)

lemma tick_leaseInv: "leaseInv s \<Longrightarrow> leaseInv (tick rv cfg jis s)"
  using execTimeout_leaseInv[OF waitTimeout_leaseInv[OF completion_leaseInv[OF admission_leaseInv]]]
  by (simp add: tick_def Let_def leaseInv_def)

lemma initState_leaseInv: "leaseInv (initState h st)"
  by (simp add: leaseInv_def initState_def)

lemma ticks_leaseInv: "leaseInv ((tick rv cfg jis ^^ n) (initState h st))"
  by (induction n) (simp_all add: initState_leaseInv tick_leaseInv)

text \<open>Whatever the main loop returns is the state after some number of passes.\<close>

lemma mainLoop_ticks:
  assumes "mainLoop rv cfg simulationEnd jobInstances s = Some s'"
  shows "\<exists>n. s' = (tick rv cfg jobInstances ^^ n) s"
proof (rule mainLoop.raw_induct[where P = "\<lambda>rv cfg e jis s s'. \<exists>n. s' = (tick rv cfg jis ^^ n) s",
        OF _ assms])
  fix f rv cfg simulationEnd jobInstances s s'
  assume IH: "\<And>rv cfg simulationEnd jobInstances s s'.
      f rv cfg simulationEnd jobInstances s = Some s' \<Longrightarrow>
      \<exists>n. s' = (tick rv cfg jobInstances ^^ n) s"
    and eq: "(if loopGuard simulationEnd s
      then let s' = tick rv cfg jobInstances s
           in if loopBreak jobInstances s' then Some s'
              else f rv cfg simulationEnd jobInstances s'
      else Some s) = Some s'"
  show "\<exists>n. s' = (tick rv cfg jobInstances ^^ n) s"
  proof (cases "loopGuard simulationEnd s")
    case False
    with eq have "s' = (tick rv cfg jobInstances ^^ 0) s" by simp
    then show ?thesis by blast
  next
    case True
    show ?thesis
    proof (cases "loopBreak jobInstances (tick rv cfg jobInstances s)")
      case b: True
      with True eq have "s' = (tick rv cfg jobInstances ^^ 1) s" by (simp add: Let_def)
      then show ?thesis by blast
    next
      case nb: False
      with True eq have *: "f rv cfg simulationEnd jobInstances (tick rv cfg jobInstances s) = Some s'"
        by (simp add: Let_def)
      from IH[OF *] obtain n where "s' = (tick rv cfg jobInstances ^^ n) (tick rv cfg jobInstances s)"
        by blast
      then have "s' = (tick rv cfg jobInstances ^^ Suc n) s" by (simp add: funpow_swap1)
      then show ?thesis by blast
    qed
  qed
qed

text \<open>
  Claim C5. At every pass of the main loop, in both revisions, \<open>activeLeases\<close> is not
  negative and equals the length of the active slice: at the head of the pass and after
  each of its four phases. The same holds of the state that \<open>simulateLeaseUsage\<close>
  returns.
\<close>

theorem C5_activeLeases_counts_active:
  "(let s = (tick rv cfg jobInstances ^^ n) (initState h simulationStart);
        s1 = admission cfg jobInstances s;
        s2 = completion rv s1;
        s3 = waitTimeout rv cfg s2;
        s4 = execTimeout rv cfg s3
    in leaseInv s \<and> leaseInv s1 \<and> leaseInv s2 \<and> leaseInv s3 \<and> leaseInv s4)
   \<and> (\<forall>s'. simulateLeaseUsage rv cfg simulationStart simulationEnd h jobInstances = Some s'
          \<longrightarrow> leaseInv s')"
proof -
  let ?s = "(tick rv cfg jobInstances ^^ n) (initState h simulationStart)"
  have 0: "leaseInv ?s" by (rule ticks_leaseInv)
  have 1: "leaseInv (admission cfg jobInstances ?s)"
    by (rule admission_leaseInv[OF 0])
  have 2: "leaseInv (completion rv (admission cfg jobInstances ?s))"
    by (rule completion_leaseInv[OF 1])
  have 3: "leaseInv (waitTimeout rv cfg (completion rv (admission cfg jobInstances ?s)))"
    by (rule waitTimeout_leaseInv[OF 2])
  have 4: "leaseInv (execTimeout rv cfg
             (waitTimeout rv cfg (completion rv (admission cfg jobInstances ?s))))"
    by (rule execTimeout_leaseInv[OF 3])
  have 5: "leaseInv s'"
    if "simulateLeaseUsage rv cfg simulationStart simulationEnd h jobInstances = Some s'" for s'
  proof -
    from that obtain k where "s' = (tick rv cfg jobInstances ^^ k) (initState h simulationStart)"
      unfolding simulateLeaseUsage_def by (blast dest: mainLoop_ticks)
    then show ?thesis by (simp add: ticks_leaseInv)
  qed
  from 0 1 2 3 4 5 show ?thesis by (simp add: Let_def)
qed

text \<open>The run of the two-job scenario ends after five passes.\<close>

lemma mainLoop_AB:
  "\<exists>s'. simulateLeaseUsage SimulatorGo cfgAB 0 Hour heapAB [0, 1] = Some s' \<and> activeLeases s' = 0 \<and> currentTime s' = 25 * Minute"
  unfolding simulateLeaseUsage_def
  by (simp add: mainLoop.simps loopGuard_def loopBreak_def engine_eval)

theorem C5_witness:
  "leaseInv ((tick SimulatorGo cfgAB [0, 1] ^^ 3) (initState heapAB 0)) \<and>
   activeLeases ((tick SimulatorGo cfgAB [0, 1] ^^ 3) (initState heapAB 0)) = 1 \<and>
   (\<exists>s'. simulateLeaseUsage SimulatorGo cfgAB 0 Hour heapAB [0, 1] = Some s' \<and> leaseInv s')"
proof -
  have c: "activeLeases ((tick SimulatorGo cfgAB [0, 1] ^^ 3) (initState heapAB 0)) = 1"
    by (simp add: engine_eval eval_nat_numeral)
  obtain s' where r: "simulateLeaseUsage SimulatorGo cfgAB 0 Hour heapAB [0, 1] = Some s'"
    using mainLoop_AB by blast
  from C5_activeLeases_counts_active[where rv = SimulatorGo and cfg = cfgAB
      and jobInstances = "[0, 1]" and n = 3 and h = heapAB and simulationStart = 0
      and simulationEnd = Hour] r c
  show ?thesis by (simp add: Let_def)
qed

section \<open>Admission\<close>

lemma startJob_jobIndex_upd:
  "startJob cfg job (s\<lparr>jobIndex := k\<rparr>) = (startJob cfg job s)\<lparr>jobIndex := k\<rparr>"
  by (simp add: startJob_def Let_def addEvent_def)

lemma startJob_frame [simp]:
  "jobIndex (startJob cfg job s) = jobIndex s"
  "currentTime (startJob cfg job s) = currentTime s"
  "StartTime (heap (startJob cfg job s) p) = StartTime (heap s p)"
  by (simp_all add: startJob_def Let_def addEvent_def)

lemma admitAll_jobIndex_upd:
  "admitAll cfg jobs (s\<lparr>jobIndex := k\<rparr>) = (admitAll cfg jobs s)\<lparr>jobIndex := k\<rparr>"
  by (induction jobs arbitrary: s) (simp_all add: admitAll_def startJob_jobIndex_upd)

lemma startJobs_takeWhile:
  "startJobs cfg jis s =
     (admitAll cfg (takeWhile (\<lambda>p. StartTime (heap s p) \<le> currentTime s) (drop (jobIndex s) jis)) s)
       \<lparr>jobIndex := jobIndex s
            + length (takeWhile (\<lambda>p. StartTime (heap s p) \<le> currentTime s) (drop (jobIndex s) jis))\<rparr>"
proof (induction cfg jis s rule: startJobs.induct)
  case (1 cfg jis s)
  let ?P = "\<lambda>p. StartTime (heap s p) \<le> currentTime s"
  show ?case
  proof (cases "jobIndex s < length jis \<and> ?P (jis ! jobIndex s)")
    case True
    let ?job = "jis ! jobIndex s"
    let ?s' = "startJob cfg ?job (s\<lparr>jobIndex := jobIndex s + 1\<rparr>)"
    have d: "drop (jobIndex s) jis = ?job # drop (Suc (jobIndex s)) jis"
      using True by (simp add: Cons_nth_drop_Suc)
    have P': "(\<lambda>p. StartTime (heap ?s' p) \<le> currentTime ?s') = ?P"
      by (simp add: startJob_jobIndex_upd)
    have "startJobs cfg jis s = startJobs cfg jis ?s'"
      using True by (subst startJobs.simps) simp
    also have "\<dots> = (admitAll cfg (takeWhile ?P (drop (Suc (jobIndex s)) jis)) ?s')
       \<lparr>jobIndex := Suc (jobIndex s) + length (takeWhile ?P (drop (Suc (jobIndex s)) jis))\<rparr>"
      using 1[OF True] by (simp only: P') simp
    also have "\<dots> = (admitAll cfg (takeWhile ?P (drop (jobIndex s) jis)) s)
       \<lparr>jobIndex := jobIndex s + length (takeWhile ?P (drop (jobIndex s) jis))\<rparr>"
      using True by (simp add: d startJob_jobIndex_upd admitAll_jobIndex_upd) (simp add: admitAll_def)
    finally show ?thesis .
  next
    case False
    then have "takeWhile ?P (drop (jobIndex s) jis) = []"
      by (cases "jobIndex s < length jis") (simp_all add: Cons_nth_drop_Suc[symmetric])
    moreover have "startJobs cfg jis s = s"
      using False by (subst startJobs.simps) auto
    ultimately show ?thesis by (simp add: admitAll_def)
  qed
qed

lemma takeWhile_sorted_filter:
  "sorted (map f xs) \<Longrightarrow> takeWhile (\<lambda>x. f x \<le> (t::int)) xs = filter (\<lambda>x. f x \<le> t) xs"
proof (induction xs)
  case Nil
  then show ?case by simp
next
  case (Cons x xs)
  show ?case
  proof (cases "f x \<le> t")
    case True
    with Cons show ?thesis by simp
  next
    case False
    with Cons.prems have "\<forall>y\<in>set xs. \<not> f y \<le> t" by fastforce
    then have "filter (\<lambda>x. f x \<le> t) xs = []" by (simp add: filter_empty_conv)
    with False show ?thesis by simp
  qed
qed

text \<open>
  Claim C1. The instance slice is sorted by start time, so on a state whose pending
  instances (those from \<open>jobIndex\<close> on) are sorted, the admission phase handles
  exactly the pending instances with \<open>StartTime \<le> currentTime\<close>, in order, and moves
  \<open>jobIndex\<close> past them. Each is admitted exactly when \<open>activeLeases < MaxActiveLeases\<close>
  at its turn: the count goes up by one, the instance is flagged \<open>LeaseAcquired\<close> and
  appended to the active slice, and one lease-acquired event is logged. Otherwise it is
  appended to the tail of the waiting slice, its \<open>LeaseWaitTime\<close> is reset to 0, and one
  job-waiting event marked as a warning is logged. Both revisions share this phase.
\<close>

theorem C1_admission:
  assumes "sorted (map (\<lambda>p. StartTime (heap s p)) (drop (jobIndex s) jobInstances))"
  shows "admission cfg jobInstances s =
           (admitAll cfg (dueJobs jobInstances s) s)
             \<lparr>jobIndex := jobIndex s + length (dueJobs jobInstances s)\<rparr>
    \<and> (\<forall>s' job. activeLeases s' < MaxActiveLeases cfg \<longrightarrow>
          startJob cfg job s' =
            s'\<lparr>heap := (heap s')(job := (heap s' job)\<lparr>LeaseAcquired := True\<rparr>),
               events := events s' @ [\<lparr>Time = currentTime s', Type = EventTypeLeaseAcquired,
                   JobInstance = job, ActiveLeases = activeLeases s' + 1,
                   Message = MsgAcquired (Name (Job (heap s' job))),
                   IsWarning = False\<rparr>],
               activeLeases := activeLeases s' + 1,
               activeJobs := activeJobs s' @ [job]\<rparr>)
    \<and> (\<forall>s' job. \<not> activeLeases s' < MaxActiveLeases cfg \<longrightarrow>
          startJob cfg job s' =
            s'\<lparr>heap := (heap s')(job := (heap s' job)\<lparr>LeaseWaitTime := 0\<rparr>),
               events := events s' @ [\<lparr>Time = currentTime s', Type = EventTypeJobWaiting,
                   JobInstance = job, ActiveLeases = activeLeases s',
                   Message = MsgWaiting (Name (Job (heap s' job))),
                   IsWarning = True\<rparr>],
               waitingJobs := waitingJobs s' @ [job]\<rparr>)"
proof -
  have "takeWhile (\<lambda>p. StartTime (heap s p) \<le> currentTime s) (drop (jobIndex s) jobInstances)
          = dueJobs jobInstances s"
    unfolding dueJobs_def by (rule takeWhile_sorted_filter[OF assms])
  then have "admission cfg jobInstances s =
           (admitAll cfg (dueJobs jobInstances s) s)
             \<lparr>jobIndex := jobIndex s + length (dueJobs jobInstances s)\<rparr>"
    using startJobs_takeWhile[of cfg jobInstances s] by (simp add: admission_def)
  then show ?thesis
    using startJob_admit startJob_wait by blast
qed

theorem C1_witness:
  "sorted (map (\<lambda>p. StartTime (heap (initState heapAB 0) p))
             (drop (jobIndex (initState heapAB 0)) [0, 1]))
   \<and> dueJobs [0, 1] (initState heapAB 0) = [0, 1]
   \<and> activeLeases (admission cfgAB [0, 1] (initState heapAB 0)) = 1
   \<and> activeJobs (admission cfgAB [0, 1] (initState heapAB 0)) = [0]
   \<and> waitingJobs (admission cfgAB [0, 1] (initState heapAB 0)) = [1]
   \<and> jobIndex (admission cfgAB [0, 1] (initState heapAB 0)) = 2
   \<and> map Type (events (admission cfgAB [0, 1] (initState heapAB 0)))
        = [EventTypeLeaseAcquired, EventTypeJobWaiting]
   \<and> map IsWarning (events (admission cfgAB [0, 1] (initState heapAB 0))) = [False, True]"
proof -
  have h: "sorted (map (\<lambda>p. StartTime (heap (initState heapAB 0) p))
             (drop (jobIndex (initState heapAB 0)) [0, 1]))"
    by (simp add: initState_def heapAB_def newInstance_def)
  have d: "dueJobs [0, 1] (initState heapAB 0) = [0, 1]"
    by (simp add: dueJobs_def initState_def heapAB_def newInstance_def)
  have "admission cfgAB [0, 1] (initState heapAB 0) =
          (admitAll cfgAB (dueJobs [0, 1] (initState heapAB 0)) (initState heapAB 0))
            \<lparr>jobIndex := jobIndex (initState heapAB 0)
               + length (dueJobs [0, 1] (initState heapAB 0))\<rparr>"
    using C1_admission[OF h, of cfgAB] by (rule conjunct1)
  then have "admission cfgAB [0, 1] (initState heapAB 0) =
          (admitAll cfgAB [0, 1] (initState heapAB 0))
            \<lparr>jobIndex := jobIndex (initState heapAB 0) + length [0::nat, 1]\<rparr>"
    by (simp only: d)
  then show ?thesis
    using h d by (simp add: admitAll_def engine_eval)
qed

section \<open>The sampler\<close>

lemma processEvents_takeWhile:
  "processEvents evs now (a, w, i) =
     (fst (foldl applyEvent (a, w) (takeWhile (\<lambda>e. Time e \<le> now) (drop i evs))),
      snd (foldl applyEvent (a, w) (takeWhile (\<lambda>e. Time e \<le> now) (drop i evs))),
      i + length (takeWhile (\<lambda>e. Time e \<le> now) (drop i evs)))"
proof (induction evs now "(a, w, i)" arbitrary: a w i rule: processEvents.induct)
  case (1 evs now a w i)
  show ?case
  proof (cases "i < length evs \<and> Time (evs ! i) \<le> now")
    case True
    then have d: "drop i evs = evs ! i # drop (Suc i) evs"
      by (simp add: Cons_nth_drop_Suc)
    show ?thesis
      using True 1[OF True refl refl refl]
      by (subst processEvents.simps) (auto simp: d Let_def applyEvent_def)
  next
    case False
    then have "takeWhile (\<lambda>e. Time e \<le> now) (drop i evs) = []"
      by (cases "i < length evs") (simp_all add: Cons_nth_drop_Suc[symmetric])
    then show ?thesis
      using False by (subst processEvents.simps) auto
  qed
qed

lemma map_upt_Suc_shift: "map f [0 ..< Suc n] = f 0 # map (\<lambda>k. f (Suc k)) [0 ..< n]"
proof -
  have "[0 ..< Suc n] = 0 # map Suc [0 ..< n]"
    by (simp add: upt_conv_Cons map_Suc_upt del: upt_Suc)
  then show ?thesis by (simp add: comp_def del: upt_Suc)
qed

lemma samplingInstants_step:
  assumes "now \<le> e"
  shows "samplingInstants now e = now # samplingInstants (now + 30 * Minute) e"
proof (cases "now + 30 * Minute \<le> e")
  case True
  have pos: "(0::int) < 30 * Minute" by (simp add: Minute_def)
  have "(e - now) div (30 * Minute) = (e - (now + 30 * Minute)) div (30 * Minute) + 1"
  proof -
    have "e - now = (e - (now + 30 * Minute)) + 30 * Minute" by simp
    then show ?thesis using pos by (metis div_add_self2 less_irrefl)
  qed
  moreover have "0 \<le> (e - (now + 30 * Minute)) div (30 * Minute)"
    using True pos by (simp add: pos_imp_zdiv_nonneg_iff)
  ultimately have n: "nat ((e - now) div (30 * Minute)) + 1 =
      Suc (nat ((e - (now + 30 * Minute)) div (30 * Minute)) + 1)"
    by simp
  have "samplingInstants now e =
          map (\<lambda>k. now + int k * (30 * Minute))
            [0 ..< Suc (nat ((e - (now + 30 * Minute)) div (30 * Minute)) + 1)]"
    using assms by (simp only: samplingInstants_def n if_True)
  also have "\<dots> = now # map (\<lambda>k. now + int (Suc k) * (30 * Minute))
            [0 ..< nat ((e - (now + 30 * Minute)) div (30 * Minute)) + 1]"
    by (subst map_upt_Suc_shift) simp
  also have "map (\<lambda>k. now + int (Suc k) * (30 * Minute))
            [0 ..< nat ((e - (now + 30 * Minute)) div (30 * Minute)) + 1]
          = samplingInstants (now + 30 * Minute) e"
    using True by (simp add: samplingInstants_def algebra_simps del: upt_Suc)
  finally show ?thesis .
next
  case False
  with assms have "(e - now) div (30 * Minute) = 0"
    by (simp add: div_pos_pos_trivial)
  with False assms show ?thesis
    by (simp add: samplingInstants_def)
qed

lemma sampleLoop_samples:
  assumes "\<forall>e\<in>set (take i evs). Time e \<le> now"
    and "(a, w) = replay (take i evs)"
  shows "sampleLoop evs simulationEnd now (a, w, i) acc =
           acc @ map (sampleAt evs) (samplingInstants now simulationEnd)"
  using assms
proof (induction evs simulationEnd now "(a, w, i)" acc arbitrary: a w i rule: sampleLoop.induct)
  case (1 evs simulationEnd now acc a w i)
  show ?case
  proof (cases "now \<le> simulationEnd")
    case False
    then show ?thesis
      by (subst sampleLoop.simps) (simp add: samplingInstants_def)
  next
    case True
    let ?P = "\<lambda>e. Time e \<le> now"
    let ?pre = "takeWhile ?P (drop i evs)"
    let ?c = "foldl applyEvent (a, w) ?pre"
    have tw: "takeWhile ?P evs = take i evs @ ?pre"
    proof -
      have "takeWhile ?P (take i evs @ drop i evs) = take i evs @ ?pre"
        using 1(2) by (intro takeWhile_append2) blast
      then show ?thesis by simp
    qed
    have ti: "take (i + length ?pre) evs = take i evs @ ?pre"
    proof -
      have "take (i + length ?pre) evs = take i evs @ take (length ?pre) (drop i evs)"
        by (simp add: take_add)
      also have "take (length ?pre) (drop i evs) = ?pre"
        by (metis takeWhile_eq_take)
      finally show ?thesis .
    qed
    have c: "?c = replay (takeWhile ?P evs)"
      using 1(3) by (simp add: tw replay_def)
    have pe: "processEvents evs now (a, w, i) = (fst ?c, snd ?c, i + length ?pre)"
      by (rule processEvents_takeWhile)
    have inv1: "\<forall>e\<in>set (take (i + length ?pre) evs). Time e \<le> now + 30 * Minute"
    proof
      fix e assume "e \<in> set (take (i + length ?pre) evs)"
      then have "e \<in> set (takeWhile ?P evs)" by (simp add: ti tw)
      then have "Time e \<le> now" by (rule set_takeWhileD[THEN conjunct2])
      then show "Time e \<le> now + 30 * Minute" by (simp add: Minute_def)
    qed
    have inv2: "(fst ?c, snd ?c) = replay (take (i + length ?pre) evs)"
      unfolding ti replay_def foldl_append using 1(3) by (simp add: replay_def)
    have "sampleLoop evs simulationEnd now (a, w, i) acc =
            sampleLoop evs simulationEnd (now + 30 * Minute) (fst ?c, snd ?c, i + length ?pre)
              (acc @ [sampleAt evs now])"
      using True by (subst sampleLoop.simps) (simp add: pe Let_def sampleAt_def c)
    also have "\<dots> = (acc @ [sampleAt evs now]) @
                 map (sampleAt evs) (samplingInstants (now + 30 * Minute) simulationEnd)"
      using 1(1)[OF True pe[symmetric] inv1 inv2] by (simp add: sampleAt_def c)
    finally show ?thesis
      using samplingInstants_step[OF True] by simp
  qed
qed

text \<open>
  Claim C9, amended. On a log that is not empty, the sampler returns exactly one time
  point for each sampling instant (the start of the window and every thirty minutes
  after it, up to the end inclusive), in order; the point at an instant holds the
  counters after the replay of the events up to that instant, where the waiting counter
  goes up on each job-waiting event and down on each lease-acquired event when it is
  positive. On an empty log the sampler returns no time point at all.
\<close>

theorem C9_sampler:
  "(evs \<noteq> [] \<longrightarrow>
      generateTimePoints evs simulationStart simulationEnd
        = map (sampleAt evs) (samplingInstants simulationStart simulationEnd)
      \<and> map TimePoint.Time (generateTimePoints evs simulationStart simulationEnd)
        = samplingInstants simulationStart simulationEnd)
   \<and> generateTimePoints [] simulationStart simulationEnd = []"
proof -
  have "generateTimePoints evs simulationStart simulationEnd
        = map (sampleAt evs) (samplingInstants simulationStart simulationEnd)" if "evs \<noteq> []"
    using that sampleLoop_samples[of 0 evs simulationStart 0 0 simulationEnd "[]"]
    by (simp add: generateTimePoints_def replay_def)
  moreover have "map TimePoint.Time (map (sampleAt evs) xs) = xs" for xs
    by (induction xs) (simp_all add: sampleAt_def)
  ultimately show ?thesis
    by (simp add: generateTimePoints_def)
qed

text \<open>The claim as stated fails on the empty log: a window of one hour has three
  sampling instants, and the sampler returns nothing.\<close>

theorem C9_counterexample:
  "generateTimePoints [] 0 Hour = []
   \<and> samplingInstants 0 Hour = [0, 30 * Minute, 60 * Minute]"
  by (simp add: generateTimePoints_def samplingInstants_def Hour_def Minute_def
      upt_conv_Cons)

theorem C9_witness:
  "events ((tick SimulatorGo cfgAB [0, 1] ^^ 5) (initState heapAB 0)) \<noteq> []
   \<and> generateTimePoints (events ((tick SimulatorGo cfgAB [0, 1] ^^ 5) (initState heapAB 0))) 0 Hour
     = [\<lparr>TimePoint.Time = 0, ActiveLeases = 1, WaitingJobs = 1\<rparr>,
        \<lparr>TimePoint.Time = 30 * Minute, ActiveLeases = 0, WaitingJobs = 0\<rparr>,
        \<lparr>TimePoint.Time = 60 * Minute, ActiveLeases = 0, WaitingJobs = 0\<rparr>]"
proof -
  let ?log = "events ((tick SimulatorGo cfgAB [0, 1] ^^ 5) (initState heapAB 0))"
  have l: "?log =
     [\<lparr>Time = 0, Type = EventTypeLeaseAcquired, JobInstance = 0, ActiveLeases = 1,
        Message = MsgAcquired ''A'', IsWarning = False\<rparr>,
      \<lparr>Time = 0, Type = EventTypeJobWaiting, JobInstance = 1, ActiveLeases = 1,
        Message = MsgWaiting ''B'', IsWarning = True\<rparr>,
      \<lparr>Time = 10 * Minute, Type = EventTypeLeaseReleased, JobInstance = 0, ActiveLeases = 0,
        Message = MsgReleased ''A'', IsWarning = False\<rparr>,
      \<lparr>Time = 10 * Minute, Type = EventTypeLeaseAcquired, JobInstance = 1, ActiveLeases = 1,
        Message = MsgAcquiredAfterWaiting ''B'' (10 * Minute), IsWarning = False\<rparr>,
      \<lparr>Time = 20 * Minute, Type = EventTypeLeaseReleased, JobInstance = 1, ActiveLeases = 0,
        Message = MsgReleased ''B'', IsWarning = False\<rparr>]"
    by (simp add: engine_eval eval_nat_numeral)
  have ne: "?log \<noteq> []" unfolding l by simp
  have "generateTimePoints ?log 0 Hour = map (sampleAt ?log) (samplingInstants 0 Hour)"
    using C9_sampler[of ?log 0 Hour] ne by blast
  then have "generateTimePoints ?log 0 Hour
     = [\<lparr>TimePoint.Time = 0, ActiveLeases = 1, WaitingJobs = 1\<rparr>,
        \<lparr>TimePoint.Time = 30 * Minute, ActiveLeases = 0, WaitingJobs = 0\<rparr>,
        \<lparr>TimePoint.Time = 60 * Minute, ActiveLeases = 0, WaitingJobs = 0\<rparr>]"
    unfolding l
    by (simp add: samplingInstants_def sampleAt_def replay_def applyEvent_def
        Hour_def Minute_def upt_conv_Cons)
  with ne show ?thesis by blast
qed

section \<open>The generator of cron instances: the occurrence train\<close>

lemma Minute_pos: "0 < Minute"
  by (simp add: Minute_def)

lemma cronLoop_total:
  assumes prog: "\<forall>t. t \<le> schedule t"
  shows "\<exists>new. cronLoop schedule job e cur acc = Some (acc @ new)
           \<and> occurrenceTrain schedule e cur (map StartTime new)
           \<and> (\<forall>i\<in>set new. i = newInstance job (StartTime i))"
proof (induction cur arbitrary: acc rule: measure_induct_rule[of "\<lambda>cur. nat (e - cur)"])
  case (less cur)
  show ?case
  proof (cases "cur < e \<and> schedule cur \<le> e")
    case False
    then have "cronLoop schedule job e cur acc = Some (acc @ [])"
      by (subst cronLoop.simps) (auto simp: Let_def)
    moreover have "occurrenceTrain schedule e cur (map StartTime [])"
      using False by simp
    ultimately show ?thesis by (metis empty_iff list.set(1))
  next
    case True
    let ?nr = "schedule cur"
    let ?inst = "\<lparr>Job = job, StartTime = ?nr, EndTime = ?nr + Duration job,
                  LeaseAcquired = False, LeaseWaitTime = 0, TimedOut = False\<rparr>"
    have "cur \<le> ?nr" using prog by blast
    then have "nat (e - (?nr + Minute)) < nat (e - cur)"
      using True Minute_pos by linarith
    from less[OF this, of "acc @ [?inst]"] obtain new where
      n: "cronLoop schedule job e (?nr + Minute) (acc @ [?inst]) = Some ((acc @ [?inst]) @ new)"
         "occurrenceTrain schedule e (?nr + Minute) (map StartTime new)"
         "\<forall>i\<in>set new. i = newInstance job (StartTime i)"
      by blast
    have "cronLoop schedule job e cur acc = Some (acc @ (?inst # new))"
      using True n(1) by (subst cronLoop.simps) (simp add: Let_def)
    moreover have "occurrenceTrain schedule e cur (map StartTime (?inst # new))"
      using True n(2) by simp
    moreover have "\<forall>i\<in>set (?inst # new). i = newInstance job (StartTime i)"
      using n(3) by (simp add: newInstance_def)
    ultimately show ?thesis by blast
  qed
qed

lemma occurrenceTrain_increasing:
  assumes prog: "\<forall>t. t \<le> schedule t"
  shows "occurrenceTrain schedule e cur ts \<Longrightarrow> sorted_wrt (<) ts \<and> (\<forall>t\<in>set ts. cur \<le> t \<and> t \<le> e)"
proof (induction ts arbitrary: cur)
  case Nil
  then show ?case by simp
next
  case (Cons t ts)
  from Cons.prems have t: "cur < e" "t = schedule cur" "t \<le> e"
      "occurrenceTrain schedule e (t + Minute) ts"
    by auto
  from Cons.IH[OF t(4)] have ih: "sorted_wrt (<) ts" "\<forall>u\<in>set ts. t + Minute \<le> u \<and> u \<le> e"
    by simp_all
  have "cur \<le> t" using prog t(2) by simp
  moreover have "\<forall>u\<in>set ts. t < u \<and> cur \<le> u"
    using ih(2) Minute_pos \<open>cur \<le> t\<close> by fastforce
  ultimately show ?case using ih t(3) by auto
qed

lemma every12h_progress: "t < every12h t"
proof -
  have "(0::int) < 12 * Hour" by (simp add: Hour_def Minute_def)
  then have "t mod (12 * Hour) < 12 * Hour" by simp
  moreover have "t = t div (12 * Hour) * (12 * Hour) + t mod (12 * Hour)"
    by (rule div_mult_mod_eq[symmetric])
  ultimately show ?thesis unfolding every12h_def by (simp add: algebra_simps)
qed

lemma every12h_boundary: "every12h (k * (12 * Hour)) = (k + 1) * (12 * Hour)"
  by (simp add: every12h_def Hour_def Minute_def)

lemma every12h_past: "every12h (k * (12 * Hour) + Minute) = (k + 1) * (12 * Hour)"
proof -
  have "(k * (12 * Hour) + Minute) div (12 * Hour) = k"
    by (simp add: Hour_def Minute_def)
  then show ?thesis by (simp add: every12h_def)
qed

lemma cron12h_two:
  assumes "CronSchedule job = ''0 */12 * * *''"
  shows "generateCronInstances parse12h job (k * (12 * Hour)) (k * (12 * Hour) + 24 * Hour)
         = Some [newInstance job (k * (12 * Hour) + 12 * Hour),
                 newInstance job (k * (12 * Hour) + 24 * Hour)]"
proof -
  define s where "s = k * (12 * Hour)"
  define m where "m = s + 12 * Hour"
  define e where "e = s + 24 * Hour"
  have hp: "(0::int) < Hour" by (simp add: Hour_def Minute_def)
  have n1: "every12h s = m"
    using every12h_boundary[of k] by (simp add: s_def m_def algebra_simps)
  have n2: "every12h (m + Minute) = e"
    using every12h_past[of "k + 1"] by (simp add: s_def m_def e_def algebra_simps)
  have lt: "s < e" "m \<le> e" "m + Minute < e"
    using hp by (simp_all add: m_def e_def Hour_def Minute_def)
  have l3: "cronLoop every12h job e (e + Minute) acc = Some acc" for acc
    using Minute_pos by (subst cronLoop.simps) simp
  have l2: "cronLoop every12h job e (m + Minute) acc = Some (acc @ [newInstance job e])" for acc
    using lt by (subst cronLoop.simps) (simp add: n2 Let_def l3 newInstance_def)
  have l1: "cronLoop every12h job e s [] = Some [newInstance job m, newInstance job e]"
    using lt by (subst cronLoop.simps) (simp add: n1 Let_def l2 newInstance_def)
  show ?thesis
    using assms l1 by (simp add: generateCronInstances_def parse12h_def s_def m_def e_def)
qed

text \<open>The count of two rests on the library's answer being strictly later than the
  time asked about: an oracle that answers ``at or after'' gives a third instance, at the
  start of the window itself.\<close>

lemma cron12h_atOrAfter_three:
  "cronLoop atOrAfter12h job (24 * Hour) 0 []
     = Some [newInstance job 0, newInstance job (12 * Hour), newInstance job (24 * Hour)]"
proof -
  have l4: "cronLoop atOrAfter12h job (24 * Hour) (24 * Hour + Minute) acc = Some acc" for acc
    using Minute_pos by (subst cronLoop.simps) simp
  have l3: "cronLoop atOrAfter12h job (24 * Hour) (12 * Hour + Minute) acc
      = Some (acc @ [newInstance job (24 * Hour)])" for acc
    using l4[of "acc @ [newInstance job (24 * Hour)]"]
    by (subst cronLoop.simps)
       (simp add: Let_def newInstance_def atOrAfter12h_def every12h_def Hour_def Minute_def)
  have l2: "cronLoop atOrAfter12h job (24 * Hour) (0 + Minute) acc
      = Some (acc @ [newInstance job (12 * Hour), newInstance job (24 * Hour)])" for acc
    using l3[of "acc @ [newInstance job (12 * Hour)]"]
    by (subst cronLoop.simps)
       (simp add: Let_def newInstance_def atOrAfter12h_def every12h_def Hour_def Minute_def)
  show ?thesis
    using l2[of "[newInstance job 0]"]
    by (subst cronLoop.simps)
       (simp add: Let_def newInstance_def atOrAfter12h_def Hour_def Minute_def)
qed

text \<open>
  Claim C8. For a schedule whose \<open>Next\<close> never answers earlier than the time it is
  asked about (the cron library answers strictly later), the generator returns, and its
  instances are the occurrence train from the start of the window: each start is the
  schedule's answer at the cursor, the search stops at the first answer after the end of
  the window (or once the cursor has reached the end), and the cursor moves one minute
  past each start, so the starts strictly increase and no slot is taken twice. Each
  instance ends one job duration after its start. In particular the schedule
  \<open>0 */12 * * *\<close> over a window of 24 hours that starts on a multiple of twelve hours
  gives exactly two instances.
\<close>

theorem C8_cron_generation:
  "((\<forall>t. t \<le> schedule t) \<and> parse (CronSchedule job) = Some schedule \<longrightarrow>
      (\<exists>insts. generateCronInstances parse job simulationStart simulationEnd = Some insts
         \<and> occurrenceTrain schedule simulationEnd simulationStart (map StartTime insts)
         \<and> sorted_wrt (<) (map StartTime insts)
         \<and> (\<forall>i\<in>set insts. Job i = job \<and> EndTime i = StartTime i + Duration job
                \<and> StartTime i \<le> simulationEnd)))
   \<and> (CronSchedule job = ''0 */12 * * *'' \<longrightarrow>
        map_option length
          (generateCronInstances parse12h job (k * (12 * Hour)) (k * (12 * Hour) + 24 * Hour))
        = Some 2)"
proof (intro conjI impI)
  assume a: "(\<forall>t. t \<le> schedule t) \<and> parse (CronSchedule job) = Some schedule"
  then have prog: "\<forall>t. t \<le> schedule t" by blast
  from cronLoop_total[OF prog, of job simulationEnd simulationStart "[]"]
  obtain insts where i: "cronLoop schedule job simulationEnd simulationStart [] = Some insts"
    "occurrenceTrain schedule simulationEnd simulationStart (map StartTime insts)"
    "\<forall>i\<in>set insts. i = newInstance job (StartTime i)"
    by auto
  from occurrenceTrain_increasing[OF prog i(2)]
  have inc: "sorted_wrt (<) (map StartTime insts)" "\<forall>i\<in>set insts. StartTime i \<le> simulationEnd"
    by simp_all
  have f: "\<forall>i\<in>set insts. Job i = job \<and> EndTime i = StartTime i + Duration job
                \<and> StartTime i \<le> simulationEnd"
  proof
    fix i assume m: "i \<in> set insts"
    with i(3) have "i = newInstance job (StartTime i)" by blast
    then have "Job i = job" "EndTime i = StartTime i + Duration job"
      by (metis JobInstance.select_convs(1) newInstance_def,
          metis JobInstance.select_convs(2,3) newInstance_def)
    with inc(2) m show "Job i = job \<and> EndTime i = StartTime i + Duration job
                \<and> StartTime i \<le> simulationEnd" by blast
  qed
  have "generateCronInstances parse job simulationStart simulationEnd = Some insts"
    using a i(1) by (simp add: generateCronInstances_def)
  with i(2) inc(1) f
  show "\<exists>insts. generateCronInstances parse job simulationStart simulationEnd = Some insts
         \<and> occurrenceTrain schedule simulationEnd simulationStart (map StartTime insts)
         \<and> sorted_wrt (<) (map StartTime insts)
         \<and> (\<forall>i\<in>set insts. Job i = job \<and> EndTime i = StartTime i + Duration job
                \<and> StartTime i \<le> simulationEnd)"
    by blast
next
  assume "CronSchedule job = ''0 */12 * * *''"
  from cron12h_two[OF this, of k]
  show "map_option length
          (generateCronInstances parse12h job (k * (12 * Hour)) (k * (12 * Hour) + 24 * Hour))
        = Some 2"
    by simp
qed

theorem C8_witness:
  "(\<forall>t. t \<le> every12h t)
   \<and> parse12h (CronSchedule jobA) = Some every12h
   \<and> CronSchedule jobA = ''0 */12 * * *''
   \<and> generateCronInstances parse12h jobA 0 (24 * Hour)
       = Some [newInstance jobA (12 * Hour), newInstance jobA (24 * Hour)]
   \<and> map_option length (generateCronInstances parse12h jobA 0 (0 + 24 * Hour)) = Some 2
   \<and> (\<exists>insts. generateCronInstances parse12h jobA 0 (24 * Hour) = Some insts
         \<and> occurrenceTrain every12h (24 * Hour) 0 (map StartTime insts)
         \<and> sorted_wrt (<) (map StartTime insts))"
proof -
  have h1: "\<forall>t. t \<le> every12h t"
    using every12h_progress by (simp add: less_imp_le)
  have h2: "parse12h (CronSchedule jobA) = Some every12h"
    by (simp add: parse12h_def jobA_def)
  have h3: "CronSchedule jobA = ''0 */12 * * *''"
    by (simp add: jobA_def)
  have r: "generateCronInstances parse12h jobA 0 (24 * Hour)
       = Some [newInstance jobA (12 * Hour), newInstance jobA (24 * Hour)]"
    using cron12h_two[OF h3, of 0] by simp
  note c = C8_cron_generation[where schedule = every12h and parse = parse12h and job = jobA
      and simulationStart = 0 and simulationEnd = "24 * Hour" and k = 0]
  from c h1 h2 have "\<exists>insts. generateCronInstances parse12h jobA 0 (24 * Hour) = Some insts
         \<and> occurrenceTrain every12h (24 * Hour) 0 (map StartTime insts)
         \<and> sorted_wrt (<) (map StartTime insts)"
    by blast
  moreover from c h3
  have "map_option length (generateCronInstances parse12h jobA 0 (0 + 24 * Hour)) = Some 2"
    by simp
  ultimately show ?thesis using h1 h2 h3 r by blast
qed

section \<open>The completion phase\<close>

lemma promotedInstance_idem [simp]:
  "promotedInstance rv now (promotedInstance rv now j) = promotedInstance rv now j"
  by (cases rv) (simp_all add: promotedInstance_def)

lemma log_append [simp]:
  "promotedJobs (evs @ evs') = promotedJobs evs @ promotedJobs evs'"
  "enqueuedJobs (evs @ evs') = enqueuedJobs evs @ enqueuedJobs evs'"
  "releasedJobs (evs @ evs') = releasedJobs evs @ releasedJobs evs'"
  by (simp_all add: promotedJobs_def enqueuedJobs_def releasedJobs_def)

lemma log_Cons [simp]:
  "promotedJobs (e # evs) = (if isPromotion e then JobInstance e # promotedJobs evs
                             else promotedJobs evs)"
  "enqueuedJobs (e # evs) = (if Type e = EventTypeJobWaiting then JobInstance e # enqueuedJobs evs
                             else enqueuedJobs evs)"
  "releasedJobs (e # evs) = (if Type e = EventTypeLeaseReleased then JobInstance e # releasedJobs evs
                             else releasedJobs evs)"
  by (simp_all add: promotedJobs_def enqueuedJobs_def releasedJobs_def)

lemma log_Nil [simp]:
  "promotedJobs [] = []" "enqueuedJobs [] = []" "releasedJobs [] = []"
  by (simp_all add: promotedJobs_def enqueuedJobs_def releasedJobs_def)

lemma isPromotion_simps [simp]:
  "isPromotion \<lparr>Time = t, Type = ty, JobInstance = p, ActiveLeases = a, Message = m,
                IsWarning = w\<rparr>
     \<longleftrightarrow> ty = EventTypeLeaseAcquired
          \<and> (case m of MsgAcquiredAfterWaiting name waited \<Rightarrow> True | _ \<Rightarrow> False)"
  by (simp add: isPromotion_def)

lemma finishInv_init: "finishInv rv s0 0 [] s0"
  by (simp add: finishInv_def)

lemma finishInv_survive: "finishInv rv s0 k rem s \<Longrightarrow> finishInv rv s0 k (rem @ [job]) s"
  by (auto simp: finishInv_def)

lemma finishInv_release:
  assumes "finishInv rv s0 k rem s" and "waitingJobs s = []"
  shows "finishInv rv s0 k rem (release job s)"
proof -
  from assms have "k = length (waitingJobs s0)"
    by (simp add: finishInv_def)
  with assms(1) show ?thesis
    by (simp add: finishInv_def) linarith
qed

lemma finishInv_promote:
  assumes "finishInv rv s0 k rem s" and "waitingJobs s \<noteq> []"
  shows "finishInv rv s0 (Suc k) (rem @ [hd (waitingJobs s)]) (snd (promote rv (release job s)))"
proof -
  let ?W = "waitingJobs s0"
  let ?s' = "snd (promote rv (release job s))"
  from assms(1) have
    i1: "k \<le> length ?W" and
    i2: "waitingJobs s = drop k ?W" and
    i3: "currentTime s = currentTime s0" and
    i4: "jobIndex s = jobIndex s0" and
    i5: "heap s = (\<lambda>p. if p \<in> set (take k ?W)
                      then promotedInstance rv (currentTime s0) (heap s0 p) else heap s0 p)" and
    i6: "promotedJobs (events s) = promotedJobs (events s0) @ take k ?W" and
    i7: "enqueuedJobs (events s) = enqueuedJobs (events s0)" and
    i8: "k = min (length (releasedJobs (events s)) - length (releasedJobs (events s0)))
             (length ?W)" and
    i9: "length (releasedJobs (events s0)) \<le> length (releasedJobs (events s))" and
    i10: "set (take k ?W) \<subseteq> set rem"
    unfolding finishInv_def by blast+
  have k: "k < length ?W"
    using assms(2) i1 i2 by (cases "k = length ?W") simp_all
  have hd: "hd (waitingJobs s) = ?W ! k"
    using k i2 by (simp add: hd_drop_conv_nth)
  have tk: "take (Suc k) ?W = take k ?W @ [?W ! k]"
    using k by (simp add: take_Suc_conv_app_nth)
  have tl: "tl (drop k ?W) = drop (Suc k) ?W"
    by (simp add: drop_Suc tl_drop)
  have rel: "k = length (releasedJobs (events s)) - length (releasedJobs (events s0))"
    using i8 k by linarith
  have c1: "Suc k \<le> length ?W" using k by simp
  have c2: "waitingJobs ?s' = drop (Suc k) ?W" by (simp add: i2 tl)
  have c3: "currentTime ?s' = currentTime s0" by (simp add: i3)
  have c4: "jobIndex ?s' = jobIndex s0" by (simp add: i4)
  have c5: "heap ?s' = (\<lambda>p. if p \<in> set (take (Suc k) ?W)
           then promotedInstance rv (currentTime s0) (heap s0 p) else heap s0 p)"
    by (auto simp: i5 i3 hd tk fun_eq_iff)
  have c6: "promotedJobs (events ?s') = promotedJobs (events s0) @ take (Suc k) ?W"
    by (simp add: i6 hd tk)
  have c7: "enqueuedJobs (events ?s') = enqueuedJobs (events s0)"
    by (simp add: i7)
  have r: "releasedJobs (events ?s') = releasedJobs (events s) @ [job]"
    by simp
  have c8: "Suc k = min (length (releasedJobs (events ?s')) - length (releasedJobs (events s0)))
             (length ?W)"
    unfolding r using rel i9 k by simp
  have c9: "length (releasedJobs (events s0)) \<le> length (releasedJobs (events ?s'))"
    unfolding r using i9 by simp
  have c10: "set (take (Suc k) ?W) \<subseteq> set (rem @ [hd (waitingJobs s)])"
    using i10 by (auto simp: tk hd)
  show ?thesis
    unfolding finishInv_def using c1 c2 c3 c4 c5 c6 c7 c8 c9 c10 by blast
qed

lemma finishJobs_finishInv:
  "\<exists>k. finishInv rv s k (fst (finishJobs rv jobs [] s)) (snd (finishJobs rv jobs [] s))"
proof -
  let ?Q = "\<lambda>(jobs::nat list) rem s'. \<exists>k. finishInv rv s k rem s'"
  have "?Q [] (fst (finishJobs rv jobs [] s)) (snd (finishJobs rv jobs [] s))"
  proof (rule finishJobs_rule[where Q = ?Q])
    show "?Q jobs [] s" using finishInv_init by blast
  qed (blast intro: finishInv_survive finishInv_release finishInv_promote)+
  then show ?thesis .
qed

section \<open>Ownership of the instances\<close>

lemma subseq_imp_distinct: "subseq xs ys \<Longrightarrow> distinct ys \<Longrightarrow> distinct xs"
  by (rule subseqs_distinctD[of xs ys]) simp_all

lemma subseq_imp_subset: "subseq xs ys \<Longrightarrow> set xs \<subseteq> set ys"
  by (auto elim: list_emb_set)

lemma startJob_lists:
  "(activeJobs (startJob cfg job s) = activeJobs s @ [job]
      \<and> waitingJobs (startJob cfg job s) = waitingJobs s)
   \<or> (activeJobs (startJob cfg job s) = activeJobs s
      \<and> waitingJobs (startJob cfg job s) = waitingJobs s @ [job])"
  by (simp add: startJob_def Let_def)

lemma nth_notin_take: "distinct xs \<Longrightarrow> k < length xs \<Longrightarrow> xs ! k \<notin> set (take k xs)"
  by (metis distinct_take id_take_nth_drop not_distinct_conv_prefix distinct_append
      append_Cons distinct.simps(2) in_set_conv_decomp)

lemma startJob_ownInv:
  assumes "distinct jis" and "ownInv jis (activeJobs s) (waitingJobs s) s"
    and "jobIndex s < length jis"
  shows "ownInv jis (activeJobs (startJob cfg (jis ! jobIndex s) (s\<lparr>jobIndex := jobIndex s + 1\<rparr>)))
           (waitingJobs (startJob cfg (jis ! jobIndex s) (s\<lparr>jobIndex := jobIndex s + 1\<rparr>)))
           (startJob cfg (jis ! jobIndex s) (s\<lparr>jobIndex := jobIndex s + 1\<rparr>))"
proof -
  let ?job = "jis ! jobIndex s"
  let ?s' = "startJob cfg ?job (s\<lparr>jobIndex := jobIndex s + 1\<rparr>)"
  have n: "?job \<notin> set (take (jobIndex s) jis)"
    using assms(1,3) by (rule nth_notin_take)
  have t: "set (take (Suc (jobIndex s)) jis) = insert ?job (set (take (jobIndex s) jis))"
    using assms(3) by (simp add: take_Suc_conv_app_nth)
  have j: "jobIndex ?s' = Suc (jobIndex s)"
    by (simp add: startJob_jobIndex_upd)
  from startJob_lists[of cfg ?job "s\<lparr>jobIndex := jobIndex s + 1\<rparr>"]
  show ?thesis
    using assms(2) n unfolding ownInv_def j t by auto
qed

lemma admission_ownInv:
  assumes "distinct jis" and "ownInv jis (activeJobs s) (waitingJobs s) s"
  shows "ownInv jis (activeJobs (admission cfg jis s)) (waitingJobs (admission cfg jis s))
           (admission cfg jis s)"
  unfolding admission_def
proof (rule startJobs_rule[where P = "\<lambda>s. ownInv jis (activeJobs s) (waitingJobs s) s"])
  show "ownInv jis (activeJobs s) (waitingJobs s) s" by (rule assms(2))
next
  fix s
  assume "ownInv jis (activeJobs s) (waitingJobs s) s" and "jobIndex s < length jis"
  from startJob_ownInv[OF assms(1) this, of cfg]
  show "ownInv jis (activeJobs (startJob cfg (jis ! jobIndex s) (s\<lparr>jobIndex := jobIndex s + 1\<rparr>)))
           (waitingJobs (startJob cfg (jis ! jobIndex s) (s\<lparr>jobIndex := jobIndex s + 1\<rparr>)))
           (startJob cfg (jis ! jobIndex s) (s\<lparr>jobIndex := jobIndex s + 1\<rparr>))" .
qed

lemma completion_ownInv:
  assumes "ownInv jis (activeJobs s) (waitingJobs s) s"
  shows "ownInv jis (activeJobs (completion rv s)) (waitingJobs (completion rv s)) (completion rv s)"
proof -
  let ?Q = "\<lambda>(jobs::nat list) (rem::nat list) s'. ownInv jis (rem @ jobs) (waitingJobs s') s'"
  have "?Q [] (fst (finishJobs rv (activeJobs s) [] s)) (snd (finishJobs rv (activeJobs s) [] s))"
  proof (rule finishJobs_rule[where Q = ?Q])
    show "?Q (activeJobs s) [] s" using assms by simp
  next
    fix job jobs rem s
    assume "?Q (job # jobs) rem s" and "waitingJobs s \<noteq> []"
    then show "?Q jobs (rem @ [hd (waitingJobs s)]) (snd (promote rv (release job s)))"
      by (cases "waitingJobs s") (auto simp: ownInv_def)
  qed (auto simp: ownInv_def)
  then show ?thesis
    by (simp add: completion_def case_prod_beta ownInv_def)
qed

lemma waitTimeouts_frame:
  "activeLeases (snd (waitTimeouts rv cfg jobs rem s)) = activeLeases s \<and>
   activeJobs (snd (waitTimeouts rv cfg jobs rem s)) = activeJobs s \<and>
   waitingJobs (snd (waitTimeouts rv cfg jobs rem s)) = waitingJobs s \<and>
   jobIndex (snd (waitTimeouts rv cfg jobs rem s)) = jobIndex s \<and>
   currentTime (snd (waitTimeouts rv cfg jobs rem s)) = currentTime s"
proof -
  let ?Q = "\<lambda>(jobs::nat list) (rem::nat list) s'. activeLeases s' = activeLeases s \<and>
     activeJobs s' = activeJobs s \<and> waitingJobs s' = waitingJobs s \<and>
     jobIndex s' = jobIndex s \<and> currentTime s' = currentTime s"
  show ?thesis
    by (rule waitTimeouts_rule[where Q = ?Q]) simp_all
qed

lemma waitTimeouts_subseq:
  "subseq (fst (waitTimeouts rv cfg jobs rem s)) (rem @ jobs)"
proof -
  let ?Q = "\<lambda>(js::nat list) (r::nat list) (s'::SimState). subseq (r @ js) (rem @ jobs)"
  have "?Q [] (fst (waitTimeouts rv cfg jobs rem s)) (snd (waitTimeouts rv cfg jobs rem s))"
  proof (rule waitTimeouts_rule[where Q = ?Q])
    fix job js r and s' :: SimState
    assume "subseq (r @ job # js) (rem @ jobs)"
    moreover have "subseq (r @ js) (r @ job # js)"
      by (simp add: subseq_append' subseq_Cons')
    ultimately show "subseq (r @ js) (rem @ jobs)"
      by (rule subseq_order.trans[rotated])
  qed simp_all
  then show ?thesis by simp
qed

lemma waitTimeout_subseq: "subseq (waitingJobs (waitTimeout rv cfg s)) (waitingJobs s)"
  using waitTimeouts_subseq[of rv cfg "waitingJobs s" "[]" s]
  by (simp add: waitTimeout_def case_prod_beta)

lemma waitTimeout_frame':
  "waitingJobs (waitTimeout rv cfg s) = fst (waitTimeouts rv cfg (waitingJobs s) [] s)"
  by (simp add: waitTimeout_def case_prod_beta)

lemma waitTimeout_ownInv:
  assumes "ownInv jis (activeJobs s) (waitingJobs s) s"
  shows "ownInv jis (activeJobs (waitTimeout rv cfg s)) (waitingJobs (waitTimeout rv cfg s))
           (waitTimeout rv cfg s)"
proof -
  have "subseq (waitingJobs (waitTimeout rv cfg s) @ activeJobs s) (waitingJobs s @ activeJobs s)"
    using waitTimeout_subseq[of rv cfg s] by simp
  then have "distinct (waitingJobs (waitTimeout rv cfg s) @ activeJobs s)"
    and "set (waitingJobs (waitTimeout rv cfg s) @ activeJobs s)
           \<subseteq> set (waitingJobs s @ activeJobs s)"
    using assms subseq_imp_distinct subseq_imp_subset unfolding ownInv_def by blast+
  then show ?thesis
    using assms waitTimeout_frame[of rv cfg s] unfolding ownInv_def by auto
qed

lemma execTimeouts_frame:
  "waitingJobs (snd (execTimeouts rv cfg jobs rem s)) = waitingJobs s \<and>
   activeJobs (snd (execTimeouts rv cfg jobs rem s)) = activeJobs s \<and>
   jobIndex (snd (execTimeouts rv cfg jobs rem s)) = jobIndex s \<and>
   currentTime (snd (execTimeouts rv cfg jobs rem s)) = currentTime s"
proof -
  let ?Q = "\<lambda>(jobs::nat list) (rem::nat list) s'. waitingJobs s' = waitingJobs s \<and>
     activeJobs s' = activeJobs s \<and>
     jobIndex s' = jobIndex s \<and> currentTime s' = currentTime s"
  show ?thesis
    by (rule execTimeouts_rule[where Q = ?Q]) simp_all
qed

lemma execTimeouts_subseq:
  "subseq (fst (execTimeouts rv cfg jobs rem s)) (rem @ jobs)"
proof -
  let ?Q = "\<lambda>(js::nat list) (r::nat list) (s'::SimState). subseq (r @ js) (rem @ jobs)"
  have "?Q [] (fst (execTimeouts rv cfg jobs rem s)) (snd (execTimeouts rv cfg jobs rem s))"
  proof (rule execTimeouts_rule[where Q = ?Q])
    fix job js r and s' :: SimState
    assume "subseq (r @ job # js) (rem @ jobs)"
    moreover have "subseq (r @ js) (r @ job # js)"
      by (simp add: subseq_append' subseq_Cons')
    ultimately show "subseq (r @ js) (rem @ jobs)"
      by (rule subseq_order.trans[rotated])
  qed simp_all
  then show ?thesis by simp
qed

lemma execTimeout_lists:
  "waitingJobs (execTimeout rv cfg s) = waitingJobs s
   \<and> jobIndex (execTimeout rv cfg s) = jobIndex s
   \<and> currentTime (execTimeout rv cfg s) = currentTime s
   \<and> subseq (activeJobs (execTimeout rv cfg s)) (activeJobs s)"
  using execTimeouts_frame[of rv cfg "activeJobs s" "[]" s]
    execTimeouts_subseq[of rv cfg "activeJobs s" "[]" s]
  by (cases rv) (simp_all add: execTimeout_def case_prod_beta)

lemma execTimeout_ownInv:
  assumes "ownInv jis (activeJobs s) (waitingJobs s) s"
  shows "ownInv jis (activeJobs (execTimeout rv cfg s)) (waitingJobs (execTimeout rv cfg s))
           (execTimeout rv cfg s)"
proof -
  have "subseq (waitingJobs s @ activeJobs (execTimeout rv cfg s)) (waitingJobs s @ activeJobs s)"
    using execTimeout_lists[of rv cfg s] by (simp add: subseq_append')
  then have "distinct (waitingJobs s @ activeJobs (execTimeout rv cfg s))"
    and "set (waitingJobs s @ activeJobs (execTimeout rv cfg s))
           \<subseteq> set (waitingJobs s @ activeJobs s)"
    using assms subseq_imp_distinct subseq_imp_subset unfolding ownInv_def by blast+
  then show ?thesis
    using assms execTimeout_lists[of rv cfg s] unfolding ownInv_def by auto
qed

lemma tick_ownInv:
  assumes "distinct jis" and "ownInv jis (activeJobs s) (waitingJobs s) s"
  shows "ownInv jis (activeJobs (tick rv cfg jis s)) (waitingJobs (tick rv cfg jis s))
           (tick rv cfg jis s)"
proof -
  let ?s1 = "admission cfg jis s"
  let ?s2 = "completion rv ?s1"
  let ?s3 = "waitTimeout rv cfg ?s2"
  let ?s4 = "execTimeout rv cfg ?s3"
  have "ownInv jis (activeJobs ?s1) (waitingJobs ?s1) ?s1"
    by (rule admission_ownInv[OF assms])
  then have "ownInv jis (activeJobs ?s2) (waitingJobs ?s2) ?s2"
    by (rule completion_ownInv)
  then have "ownInv jis (activeJobs ?s3) (waitingJobs ?s3) ?s3"
    by (rule waitTimeout_ownInv)
  then have "ownInv jis (activeJobs ?s4) (waitingJobs ?s4) ?s4"
    by (rule execTimeout_ownInv)
  then show ?thesis
    by (simp add: tick_def Let_def ownInv_def)
qed

lemma ticks_ownInv:
  assumes "distinct jis"
  shows "ownInv jis (activeJobs ((tick rv cfg jis ^^ n) (initState h st)))
           (waitingJobs ((tick rv cfg jis ^^ n) (initState h st)))
           ((tick rv cfg jis ^^ n) (initState h st))"
proof (induction n)
  case 0
  show ?case by (simp add: ownInv_def initState_def)
next
  case (Suc n)
  then show ?case using tick_ownInv[OF assms] by simp
qed

section \<open>First in, first out\<close>

lemma startJob_fifoInv:
  assumes "fifoInv jis s" and "jobIndex s < length jis"
  shows "fifoInv jis (startJob cfg (jis ! jobIndex s) (s\<lparr>jobIndex := jobIndex s + 1\<rparr>))"
proof -
  let ?job = "jis ! jobIndex s"
  have t: "take (Suc (jobIndex s)) jis = take (jobIndex s) jis @ [?job]"
    using assms(2) by (simp add: take_Suc_conv_app_nth)
  from assms(1) have a: "subseq (promotedJobs (events s) @ waitingJobs s) (enqueuedJobs (events s))"
    and b: "subseq (enqueuedJobs (events s)) (take (jobIndex s) jis)"
    by (simp_all add: fifoInv_def)
  show ?thesis
  proof (cases "activeLeases s < MaxActiveLeases cfg")
    case True
    have "subseq (enqueuedJobs (events s)) (take (jobIndex s) jis @ [?job])"
      using b by (rule subseq_rev_drop_many)
    then show ?thesis
      using True a by (simp add: startJob_jobIndex_upd startJob_admit fifoInv_def t)
  next
    case False
    have "subseq ((promotedJobs (events s) @ waitingJobs s) @ [?job]) (enqueuedJobs (events s) @ [?job])"
      using a by (simp only: subseq_append)
    moreover have "subseq (enqueuedJobs (events s) @ [?job]) (take (jobIndex s) jis @ [?job])"
      using b by (simp only: subseq_append)
    ultimately show ?thesis
      using False by (simp add: startJob_jobIndex_upd startJob_wait fifoInv_def t)
  qed
qed

lemma admission_fifoInv: "fifoInv jis s \<Longrightarrow> fifoInv jis (admission cfg jis s)"
  unfolding admission_def
  by (rule startJobs_rule[where P = "fifoInv jis"])
     (assumption, (rule startJob_fifoInv; assumption))

lemma finishInv_activeJobs_upd [simp]:
  "finishInv rv s0 k rem (s\<lparr>activeJobs := a\<rparr>) = finishInv rv s0 k rem s"
  by (simp add: finishInv_def)

lemma completion_finishInv:
  "\<exists>k. finishInv rv s k (activeJobs (completion rv s)) (completion rv s)"
  using finishJobs_finishInv[of rv s "activeJobs s"]
  by (simp add: completion_def case_prod_beta)

lemma completion_fifoInv:
  assumes "fifoInv jis s"
  shows "fifoInv jis (completion rv s)"
proof -
  obtain k where k: "finishInv rv s k (activeJobs (completion rv s)) (completion rv s)"
    using completion_finishInv by blast
  then have "promotedJobs (events (completion rv s)) @ waitingJobs (completion rv s)
      = promotedJobs (events s) @ waitingJobs s"
    by (simp add: finishInv_def)
  with k assms show ?thesis
    by (simp add: fifoInv_def finishInv_def)
qed

lemma waitTimeouts_log:
  "promotedJobs (events (snd (waitTimeouts rv cfg jobs rem s))) = promotedJobs (events s) \<and>
   enqueuedJobs (events (snd (waitTimeouts rv cfg jobs rem s))) = enqueuedJobs (events s) \<and>
   releasedJobs (events (snd (waitTimeouts rv cfg jobs rem s))) = releasedJobs (events s)"
proof -
  let ?Q = "\<lambda>(jobs::nat list) (rem::nat list) s'.
     promotedJobs (events s') = promotedJobs (events s) \<and>
     enqueuedJobs (events s') = enqueuedJobs (events s) \<and>
     releasedJobs (events s') = releasedJobs (events s)"
  show ?thesis
    by (rule waitTimeouts_rule[where Q = ?Q]) (simp_all split: revision.splits)
qed

lemma execTimeouts_log:
  "promotedJobs (events (snd (execTimeouts rv cfg jobs rem s))) = promotedJobs (events s) \<and>
   enqueuedJobs (events (snd (execTimeouts rv cfg jobs rem s))) = enqueuedJobs (events s) \<and>
   releasedJobs (events (snd (execTimeouts rv cfg jobs rem s))) = releasedJobs (events s)"
proof -
  let ?Q = "\<lambda>(jobs::nat list) (rem::nat list) s'.
     promotedJobs (events s') = promotedJobs (events s) \<and>
     enqueuedJobs (events s') = enqueuedJobs (events s) \<and>
     releasedJobs (events s') = releasedJobs (events s)"
  show ?thesis
    by (rule execTimeouts_rule[where Q = ?Q]) simp_all
qed

lemma waitTimeout_fifoInv:
  assumes "fifoInv jis s"
  shows "fifoInv jis (waitTimeout rv cfg s)"
proof -
  have l: "promotedJobs (events (waitTimeout rv cfg s)) = promotedJobs (events s)"
    "enqueuedJobs (events (waitTimeout rv cfg s)) = enqueuedJobs (events s)"
    using waitTimeouts_log[of rv cfg "waitingJobs s" "[]" s]
    by (simp_all add: waitTimeout_def case_prod_beta)
  have "subseq (promotedJobs (events s) @ waitingJobs (waitTimeout rv cfg s))
          (promotedJobs (events s) @ waitingJobs s)"
    using waitTimeout_subseq[of rv cfg s] by (simp add: subseq_append')
  then have "subseq (promotedJobs (events s) @ waitingJobs (waitTimeout rv cfg s))
          (enqueuedJobs (events s))"
    using assms unfolding fifoInv_def by (blast intro: subseq_order.trans)
  then show ?thesis
    using assms waitTimeout_frame[of rv cfg s] by (simp add: fifoInv_def l)
qed

lemma execTimeout_fifoInv:
  assumes "fifoInv jis s"
  shows "fifoInv jis (execTimeout rv cfg s)"
proof -
  have l: "promotedJobs (events (execTimeout rv cfg s)) = promotedJobs (events s)"
    "enqueuedJobs (events (execTimeout rv cfg s)) = enqueuedJobs (events s)"
    using execTimeouts_log[of rv cfg "activeJobs s" "[]" s]
    by (cases rv; simp add: execTimeout_def case_prod_beta)+
  show ?thesis
    using assms execTimeout_lists[of rv cfg s] by (simp add: fifoInv_def l)
qed

lemma tick_fifoInv:
  assumes "fifoInv jis s"
  shows "fifoInv jis (tick rv cfg jis s)"
proof -
  have "fifoInv jis (execTimeout rv cfg (waitTimeout rv cfg (completion rv (admission cfg jis s))))"
    by (intro execTimeout_fifoInv waitTimeout_fifoInv completion_fifoInv admission_fifoInv assms)
  then show ?thesis
    by (simp add: tick_def Let_def fifoInv_def)
qed

lemma ticks_fifoInv: "fifoInv jis ((tick rv cfg jis ^^ n) (initState h st))"
proof (induction n)
  case 0
  show ?case by (simp add: fifoInv_def initState_def)
next
  case (Suc n)
  then show ?case using tick_fifoInv by simp
qed

lemma admission_waiting_prefix: "prefix (waitingJobs s) (waitingJobs (admission cfg jis s))"
  unfolding admission_def
proof (rule startJobs_rule[where P = "\<lambda>s'. prefix (waitingJobs s) (waitingJobs s')"])
  fix s' :: SimState
  assume "prefix (waitingJobs s) (waitingJobs s')"
  then show "prefix (waitingJobs s)
      (waitingJobs (startJob cfg (jis ! jobIndex s') (s'\<lparr>jobIndex := jobIndex s' + 1\<rparr>)))"
    using startJob_lists[of cfg "jis ! jobIndex s'" "s'\<lparr>jobIndex := jobIndex s' + 1\<rparr>"]
    by (auto simp: prefix_def)
qed simp

text \<open>
  Claim C6. In both revisions, at every pass of the main loop the instances promoted so
  far, in the order of their promotion, followed by the instances now waiting, in the
  order of the waiting slice, form a subsequence of the instances in the order in which
  they were put on the waiting slice. So instances are promoted in the order in which
  they were enqueued, and every instance still waiting was enqueued after those promoted.
  With distinct instances no instance is enqueued twice, which makes the order definite.
  The phases keep the queue discipline: admission appends at the tail, completion
  promotes a prefix (the head first), the wait timeout removes instances without
  reordering the rest, and the execution timeout leaves the waiting slice alone.
\<close>

theorem C6_fifo_promotion:
  "(let s = (tick rv cfg jobInstances ^^ n) (initState h simulationStart)
    in subseq (promotedJobs (events s) @ waitingJobs s) (enqueuedJobs (events s))
       \<and> subseq (promotedJobs (events s)) (enqueuedJobs (events s))
       \<and> (distinct jobInstances \<longrightarrow> distinct (enqueuedJobs (events s))))
   \<and> prefix (waitingJobs s') (waitingJobs (admission cfg jobInstances s'))
   \<and> (\<exists>k. waitingJobs (completion rv s') = drop k (waitingJobs s')
          \<and> promotedJobs (events (completion rv s'))
              = promotedJobs (events s') @ take k (waitingJobs s'))
   \<and> subseq (waitingJobs (waitTimeout rv cfg s')) (waitingJobs s')
   \<and> waitingJobs (execTimeout rv cfg s') = waitingJobs s'"
proof -
  let ?s = "(tick rv cfg jobInstances ^^ n) (initState h simulationStart)"
  have f: "fifoInv jobInstances ?s" by (rule ticks_fifoInv)
  then have 1: "subseq (promotedJobs (events ?s) @ waitingJobs ?s) (enqueuedJobs (events ?s))"
    and e: "subseq (enqueuedJobs (events ?s)) (take (jobIndex ?s) jobInstances)"
    by (simp_all add: fifoInv_def)
  have "subseq (promotedJobs (events ?s)) (promotedJobs (events ?s) @ waitingJobs ?s)"
    by (simp add: subseq_rev_drop_many)
  with 1 have 2: "subseq (promotedJobs (events ?s)) (enqueuedJobs (events ?s))"
    by (blast intro: subseq_order.trans)
  have 3: "distinct (enqueuedJobs (events ?s))" if "distinct jobInstances"
    using e that by (blast intro: subseq_imp_distinct distinct_take)
  obtain k where "finishInv rv s' k (activeJobs (completion rv s')) (completion rv s')"
    using completion_finishInv by blast
  then have 4: "\<exists>k. waitingJobs (completion rv s') = drop k (waitingJobs s')
          \<and> promotedJobs (events (completion rv s'))
              = promotedJobs (events s') @ take k (waitingJobs s')"
    unfolding finishInv_def by blast
  show ?thesis
    using 1 2 3 4 admission_waiting_prefix[of s' cfg jobInstances]
      waitTimeout_subseq[of rv cfg s'] execTimeout_lists[of rv cfg s']
    by (simp add: Let_def)
qed

theorem C6_witness:
  "distinct [0::nat, 1, 2]
   \<and> enqueuedJobs (events ((tick SimulatorGo cfgAB [0, 1, 2] ^^ 5) (initState heapAB 0))) = [1, 2]
   \<and> promotedJobs (events ((tick SimulatorGo cfgAB [0, 1, 2] ^^ 5) (initState heapAB 0))) = [1, 2]
   \<and> subseq (promotedJobs (events ((tick SimulatorGo cfgAB [0, 1, 2] ^^ 5) (initState heapAB 0))))
        (enqueuedJobs (events ((tick SimulatorGo cfgAB [0, 1, 2] ^^ 5) (initState heapAB 0))))
   \<and> distinct (enqueuedJobs (events ((tick SimulatorGo cfgAB [0, 1, 2] ^^ 5) (initState heapAB 0))))"
proof -
  let ?s = "(tick SimulatorGo cfgAB [0, 1, 2] ^^ 5) (initState heapAB 0)"
  have d: "distinct [0::nat, 1, 2]" by simp
  have l: "map (\<lambda>e. (Type e, JobInstance e, isPromotion e)) (events ?s) =
     [(EventTypeLeaseAcquired, 0, False), (EventTypeJobWaiting, 1, False),
      (EventTypeJobWaiting, 2, False), (EventTypeLeaseReleased, 0, False),
      (EventTypeLeaseAcquired, 1, True), (EventTypeLeaseReleased, 1, False),
      (EventTypeLeaseAcquired, 2, True)]"
    by (simp add: engine_eval eval_nat_numeral)
  have e: "enqueuedJobs (events ?s) = map (fst \<circ> snd) (filter (\<lambda>x. fst x = EventTypeJobWaiting)
      (map (\<lambda>e. (Type e, JobInstance e, isPromotion e)) (events ?s)))"
    by (simp add: enqueuedJobs_def filter_map comp_def)
  have p: "promotedJobs (events ?s) = map (fst \<circ> snd) (filter (\<lambda>x. snd (snd x))
      (map (\<lambda>e. (Type e, JobInstance e, isPromotion e)) (events ?s)))"
    by (simp add: promotedJobs_def filter_map comp_def)
  have e': "enqueuedJobs (events ?s) = [1, 2]" unfolding e l by simp
  have p': "promotedJobs (events ?s) = [1, 2]" unfolding p l by simp
  from C6_fifo_promotion[where rv = SimulatorGo and cfg = cfgAB and jobInstances = "[0, 1, 2]"
      and n = 5 and h = heapAB and simulationStart = 0] d
  have "subseq (promotedJobs (events ?s)) (enqueuedJobs (events ?s))"
    and "distinct (enqueuedJobs (events ?s))"
    by (simp_all add: Let_def)
  with d e' p' show ?thesis by blast
qed

section \<open>The wait-timeout phase\<close>

lemma waitTimeouts_step:
  assumes d: "distinct jobs" and n: "job \<notin> set jobs"
    and same: "\<And>p. p \<noteq> job \<Longrightarrow> heap s1 p = heap s p"
    and ct: "currentTime s1 = currentTime s" and al: "activeLeases s1 = activeLeases s"
    and IH: "fst (waitTimeouts rv cfg jobs rem1 s1) = rem1 @ filter (\<lambda>p. \<not> waitExpired cfg s1 p) jobs
       \<and> heap (snd (waitTimeouts rv cfg jobs rem1 s1)) =
       (\<lambda>p. if p \<in> set jobs then
               (if waitExpired cfg s1 p
                then (heap s1 p)\<lparr>LeaseWaitTime := LeaseWaitTime (heap s1 p) + 5 * Minute,
                                TimedOut := True\<rparr>
                else (heap s1 p)\<lparr>LeaseWaitTime := LeaseWaitTime (heap s1 p) + 5 * Minute\<rparr>)
             else heap s1 p)
       \<and> events (snd (waitTimeouts rv cfg jobs rem1 s1)) =
       events s1 @ map (waitTimeoutEvent rv s1) (filter (waitExpired cfg s1) jobs)"
  shows "fst (waitTimeouts rv cfg jobs rem1 s1) = rem1 @ filter (\<lambda>p. \<not> waitExpired cfg s p) jobs"
    and "\<And>p. p \<noteq> job \<Longrightarrow> heap (snd (waitTimeouts rv cfg jobs rem1 s1)) p =
       (if p \<in> set jobs then
               (if waitExpired cfg s p
                then (heap s p)\<lparr>LeaseWaitTime := LeaseWaitTime (heap s p) + 5 * Minute,
                                TimedOut := True\<rparr>
                else (heap s p)\<lparr>LeaseWaitTime := LeaseWaitTime (heap s p) + 5 * Minute\<rparr>)
             else heap s p)"
    and "heap (snd (waitTimeouts rv cfg jobs rem1 s1)) job = heap s1 job"
    and "events (snd (waitTimeouts rv cfg jobs rem1 s1)) =
       events s1 @ map (waitTimeoutEvent rv s) (filter (waitExpired cfg s) jobs)"
proof -
  have ne: "p \<noteq> job" if "p \<in> set jobs" for p
    using that n by blast
  have ex: "waitExpired cfg s1 p = waitExpired cfg s p" if "p \<in> set jobs" for p
    using same[OF ne[OF that]] by (simp add: waitExpired_def)
  have ev: "waitTimeoutEvent rv s1 p = waitTimeoutEvent rv s p" if "p \<in> set jobs" for p
    using same[OF ne[OF that]] ct al by (simp add: waitTimeoutEvent_def split: revision.splits)
  have f1: "filter (\<lambda>p. \<not> waitExpired cfg s1 p) jobs = filter (\<lambda>p. \<not> waitExpired cfg s p) jobs"
    and f2: "filter (waitExpired cfg s1) jobs = filter (waitExpired cfg s) jobs"
    using ex by (auto intro: filter_cong)
  have m: "map (waitTimeoutEvent rv s1) (filter (waitExpired cfg s) jobs)
        = map (waitTimeoutEvent rv s) (filter (waitExpired cfg s) jobs)"
    using ev by (auto intro: map_cong)
  show "fst (waitTimeouts rv cfg jobs rem1 s1) = rem1 @ filter (\<lambda>p. \<not> waitExpired cfg s p) jobs"
    using IH f1 by simp
  show "events (snd (waitTimeouts rv cfg jobs rem1 s1)) =
       events s1 @ map (waitTimeoutEvent rv s) (filter (waitExpired cfg s) jobs)"
    using IH f2 m by simp
  show "heap (snd (waitTimeouts rv cfg jobs rem1 s1)) job = heap s1 job"
    using IH n by simp
  show "heap (snd (waitTimeouts rv cfg jobs rem1 s1)) p =
       (if p \<in> set jobs then
               (if waitExpired cfg s p
                then (heap s p)\<lparr>LeaseWaitTime := LeaseWaitTime (heap s p) + 5 * Minute,
                                TimedOut := True\<rparr>
                else (heap s p)\<lparr>LeaseWaitTime := LeaseWaitTime (heap s p) + 5 * Minute\<rparr>)
             else heap s p)" if "p \<noteq> job" for p
  proof (cases "p \<in> set jobs")
    case True
    then show ?thesis using IH ex[OF True] same[OF that] by simp
  next
    case False
    then show ?thesis using IH same[OF that] by simp
  qed
qed

lemma waitTimeouts_char:
  "distinct jobs \<Longrightarrow>
   fst (waitTimeouts rv cfg jobs rem s) = rem @ filter (\<lambda>p. \<not> waitExpired cfg s p) jobs
   \<and> heap (snd (waitTimeouts rv cfg jobs rem s)) =
       (\<lambda>p. if p \<in> set jobs then
               (if waitExpired cfg s p
                then (heap s p)\<lparr>LeaseWaitTime := LeaseWaitTime (heap s p) + 5 * Minute,
                                TimedOut := True\<rparr>
                else (heap s p)\<lparr>LeaseWaitTime := LeaseWaitTime (heap s p) + 5 * Minute\<rparr>)
             else heap s p)
   \<and> events (snd (waitTimeouts rv cfg jobs rem s)) =
       events s @ map (waitTimeoutEvent rv s) (filter (waitExpired cfg s) jobs)"
proof (induction jobs arbitrary: rem s)
  case Nil
  then show ?case by simp
next
  case (Cons job jobs)
  then have d: "distinct jobs" and n: "job \<notin> set jobs" by simp_all
  show ?case
  proof (cases "waitExpired cfg s job")
    case True
    define s1 where "s1 = waitExpire rv job (addWait job s)"
    have step: "waitTimeouts rv cfg (job # jobs) rem s = waitTimeouts rv cfg jobs rem s1"
      using True by (simp add: Let_def waitExpired_def s1_def)
    have e1: "events s1 = events s @ [waitTimeoutEvent rv s job]"
      by (simp add: waitTimeoutEvent_def s1_def split: revision.splits)
    have hj: "heap s1 job = (heap s job)\<lparr>LeaseWaitTime := LeaseWaitTime (heap s job) + 5 * Minute,
                                TimedOut := True\<rparr>"
      by (simp add: s1_def)
    note st = waitTimeouts_step[OF d n _ _ _ Cons.IH[OF d, of rem s1], of s]
    have same: "\<And>p. p \<noteq> job \<Longrightarrow> heap s1 p = heap s p" by (simp add: s1_def)
    have ct: "currentTime s1 = currentTime s" and al: "activeLeases s1 = activeLeases s"
      by (simp_all add: s1_def)
    have "heap (snd (waitTimeouts rv cfg jobs rem s1)) p =
       (if p \<in> set (job # jobs) then
               (if waitExpired cfg s p
                then (heap s p)\<lparr>LeaseWaitTime := LeaseWaitTime (heap s p) + 5 * Minute,
                                TimedOut := True\<rparr>
                else (heap s p)\<lparr>LeaseWaitTime := LeaseWaitTime (heap s p) + 5 * Minute\<rparr>)
             else heap s p)" for p
      using st(2)[OF same ct al, of p] st(3)[OF same ct al] hj True
      by (cases "p = job") simp_all
    then show ?thesis
      unfolding step using st(1)[OF same ct al] st(4)[OF same ct al] True e1
      by (simp add: fun_eq_iff)
  next
    case False
    define s1 where "s1 = addWait job s"
    have step: "waitTimeouts rv cfg (job # jobs) rem s = waitTimeouts rv cfg jobs (rem @ [job]) s1"
      using False by (simp add: Let_def waitExpired_def s1_def)
    have e1: "events s1 = events s"
      by (simp add: s1_def)
    have hj: "heap s1 job = (heap s job)\<lparr>LeaseWaitTime := LeaseWaitTime (heap s job) + 5 * Minute\<rparr>"
      by (simp add: s1_def)
    note st = waitTimeouts_step[OF d n _ _ _ Cons.IH[OF d, of "rem @ [job]" s1], of s]
    have same: "\<And>p. p \<noteq> job \<Longrightarrow> heap s1 p = heap s p" by (simp add: s1_def)
    have ct: "currentTime s1 = currentTime s" and al: "activeLeases s1 = activeLeases s"
      by (simp_all add: s1_def)
    have "heap (snd (waitTimeouts rv cfg jobs (rem @ [job]) s1)) p =
       (if p \<in> set (job # jobs) then
               (if waitExpired cfg s p
                then (heap s p)\<lparr>LeaseWaitTime := LeaseWaitTime (heap s p) + 5 * Minute,
                                TimedOut := True\<rparr>
                else (heap s p)\<lparr>LeaseWaitTime := LeaseWaitTime (heap s p) + 5 * Minute\<rparr>)
             else heap s p)" for p
      using st(2)[OF same ct al, of p] st(3)[OF same ct al] hj False
      by (cases "p = job") simp_all
    then show ?thesis
      unfolding step using st(1)[OF same ct al] st(4)[OF same ct al] False e1
      by (simp add: fun_eq_iff)
  qed
qed

lemma waitTimeout_char:
  assumes "distinct (waitingJobs s)"
  shows "waitingJobs (waitTimeout rv cfg s) = filter (\<lambda>p. \<not> waitExpired cfg s p) (waitingJobs s)"
    and "heap (waitTimeout rv cfg s) =
       (\<lambda>p. if p \<in> set (waitingJobs s) then
               (if waitExpired cfg s p
                then (heap s p)\<lparr>LeaseWaitTime := LeaseWaitTime (heap s p) + 5 * Minute,
                                TimedOut := True\<rparr>
                else (heap s p)\<lparr>LeaseWaitTime := LeaseWaitTime (heap s p) + 5 * Minute\<rparr>)
             else heap s p)"
    and "events (waitTimeout rv cfg s) =
       events s @ map (waitTimeoutEvent rv s) (filter (waitExpired cfg s) (waitingJobs s))"
  using waitTimeouts_char[OF assms, of rv cfg "[]" s]
  by (simp_all add: waitTimeout_def case_prod_beta)

lemma nth_in_drop: "m \<le> k \<Longrightarrow> k < length xs \<Longrightarrow> xs ! k \<in> set (drop m xs)"
proof -
  assume a: "m \<le> k" "k < length xs"
  then have "drop m xs ! (k - m) = xs ! k" by simp
  moreover have "k - m < length (drop m xs)" using a by simp
  ultimately show ?thesis by (metis nth_mem)
qed

lemma admission_waiting_subset:
  "set (waitingJobs (admission cfg jis s)) \<subseteq> set (waitingJobs s) \<union> set (drop (jobIndex s) jis)
   \<and> jobIndex s \<le> jobIndex (admission cfg jis s)"
  unfolding admission_def
proof (rule startJobs_rule[where P = "\<lambda>s'. set (waitingJobs s') \<subseteq> set (waitingJobs s) \<union> set (drop (jobIndex s) jis)
   \<and> jobIndex s \<le> jobIndex s'"])
  fix s' :: SimState
  assume a: "set (waitingJobs s') \<subseteq> set (waitingJobs s) \<union> set (drop (jobIndex s) jis)
     \<and> jobIndex s \<le> jobIndex s'" and l: "jobIndex s' < length jis"
  let ?job = "jis ! jobIndex s'"
  have "?job \<in> set (drop (jobIndex s) jis)"
    using a l by (simp add: nth_in_drop)
  then show "set (waitingJobs (startJob cfg ?job (s'\<lparr>jobIndex := jobIndex s' + 1\<rparr>)))
       \<subseteq> set (waitingJobs s) \<union> set (drop (jobIndex s) jis)
     \<and> jobIndex s \<le> jobIndex (startJob cfg ?job (s'\<lparr>jobIndex := jobIndex s' + 1\<rparr>))"
    using a startJob_lists[of cfg ?job "s'\<lparr>jobIndex := jobIndex s' + 1\<rparr>"]
    by (auto simp: startJob_jobIndex_upd)
qed simp

lemma completion_waiting_subset:
  "set (waitingJobs (completion rv s)) \<subseteq> set (waitingJobs s)
   \<and> jobIndex (completion rv s) = jobIndex s"
proof -
  obtain k where "finishInv rv s k (activeJobs (completion rv s)) (completion rv s)"
    using completion_finishInv by blast
  then show ?thesis
    by (auto simp: finishInv_def dest: in_set_dropD)
qed

lemma tick_waiting_subset:
  "set (waitingJobs (tick rv cfg jis s)) \<subseteq> set (waitingJobs s) \<union> set (drop (jobIndex s) jis)
   \<and> jobIndex s \<le> jobIndex (tick rv cfg jis s)"
proof -
  let ?s1 = "admission cfg jis s"
  let ?s2 = "completion rv ?s1"
  let ?s3 = "waitTimeout rv cfg ?s2"
  let ?s4 = "execTimeout rv cfg ?s3"
  have "set (waitingJobs ?s4) \<subseteq> set (waitingJobs ?s3)" "jobIndex ?s4 = jobIndex ?s3"
    using execTimeout_lists[of rv cfg ?s3] by simp_all
  moreover have "set (waitingJobs ?s3) \<subseteq> set (waitingJobs ?s2)" "jobIndex ?s3 = jobIndex ?s2"
    using waitTimeout_subseq[of rv cfg ?s2] waitTimeout_frame[of rv cfg ?s2]
    by (simp_all add: subseq_imp_subset)
  moreover have "set (waitingJobs ?s2) \<subseteq> set (waitingJobs ?s1)" "jobIndex ?s2 = jobIndex ?s1"
    using completion_waiting_subset[of rv ?s1] by simp_all
  moreover note admission_waiting_subset[of cfg jis s]
  ultimately have "set (waitingJobs ?s4) \<subseteq> set (waitingJobs s) \<union> set (drop (jobIndex s) jis)
      \<and> jobIndex s \<le> jobIndex ?s4"
    by auto
  then show ?thesis by (simp add: tick_def Let_def)
qed

lemma never_reenters:
  assumes "distinct jis" and "p \<in> set (take (jobIndex s) jis)" and "p \<notin> set (waitingJobs s)"
  shows "p \<notin> set (waitingJobs ((tick rv cfg jis ^^ n) s))
         \<and> p \<in> set (take (jobIndex ((tick rv cfg jis ^^ n) s)) jis)"
proof (induction n)
  case 0
  show ?case using assms by simp
next
  case (Suc n)
  let ?s = "(tick rv cfg jis ^^ n) s"
  from Suc have a: "p \<notin> set (waitingJobs ?s)" and b: "p \<in> set (take (jobIndex ?s) jis)"
    by simp_all
  have "set (take (jobIndex ?s) jis) \<inter> set (drop (jobIndex ?s) jis) = {}"
    using assms(1) by (rule set_take_disj_set_drop_if_distinct) simp
  with b have "p \<notin> set (drop (jobIndex ?s) jis)" by blast
  moreover have sub: "set (waitingJobs (tick rv cfg jis ?s))
      \<subseteq> set (waitingJobs ?s) \<union> set (drop (jobIndex ?s) jis)"
    and le: "jobIndex ?s \<le> jobIndex (tick rv cfg jis ?s)"
    using tick_waiting_subset[of rv cfg jis ?s] by simp_all
  ultimately have "p \<notin> set (waitingJobs (tick rv cfg jis ?s))"
    using a by (meson UnE subsetD)
  moreover have "set (take (jobIndex ?s) jis) \<subseteq> set (take (jobIndex (tick rv cfg jis ?s)) jis)"
    using le by (rule set_take_subset_set_take)
  then have "p \<in> set (take (jobIndex (tick rv cfg jis ?s)) jis)"
    using b by (rule subsetD)
  ultimately show ?case by simp
qed

lemmas scenario_eval = heapLB_def cfg30_def jobLong_def

lemma blocked_scenario:
  "waitingJobs ((tick rv cfg30 [0, 1] ^^ 5) (initState heapLB 0)) = [1]
   \<and> LeaseWaitTime (heap ((tick rv cfg30 [0, 1] ^^ 5) (initState heapLB 0)) 1) = 25 * Minute
   \<and> \<not> TimedOut (heap ((tick rv cfg30 [0, 1] ^^ 5) (initState heapLB 0)) 1)
   \<and> waitingJobs ((tick rv cfg30 [0, 1] ^^ 6) (initState heapLB 0)) = []
   \<and> activeJobs ((tick rv cfg30 [0, 1] ^^ 6) (initState heapLB 0)) = [0]
   \<and> LeaseWaitTime (heap ((tick rv cfg30 [0, 1] ^^ 6) (initState heapLB 0)) 1) = 30 * Minute
   \<and> TimedOut (heap ((tick rv cfg30 [0, 1] ^^ 6) (initState heapLB 0)) 1)
   \<and> last (events ((tick rv cfg30 [0, 1] ^^ 6) (initState heapLB 0)))
       = \<lparr>Time = 25 * Minute, Type = EventTypeJobTimeout, JobInstance = 1, ActiveLeases = 1,
          Message = (case rv of SimulatorGo \<Rightarrow> MsgWaitTimeout ''B'' (30 * Minute)
                     | EventsGo \<Rightarrow> MsgWaitTimeoutReleased ''B'' (30 * Minute)),
          IsWarning = True\<rparr>"
  by (cases rv) (simp_all add: engine_eval scenario_eval eval_nat_numeral)

text \<open>
  Claim C4. In both revisions the wait-timeout phase charges every waiting instance five
  minutes, the length of a pass. An instance whose wait has then reached or passed
  \<open>LeaseWaitTimeout\<close> is removed from the waiting slice and flagged \<open>TimedOut\<close>, and one
  job-timeout event marked as a warning is logged for it; the other instances stay, in
  order. (The waiting slice of a run holds no instance twice, given distinct instances.)
  An instance that has been taken from the instance slice and is not on the waiting slice
  is never on the waiting slice again. In particular, with a limit of thirty minutes an
  instance that stays blocked is still waiting after five passes, with 25 minutes
  accumulated, and times out in the sixth pass with 30 minutes accumulated.
\<close>

theorem C4_wait_timeout:
  "(distinct (waitingJobs s) \<longrightarrow>
      waitingJobs (waitTimeout rv cfg s) = filter (\<lambda>p. \<not> waitExpired cfg s p) (waitingJobs s)
      \<and> (\<forall>p\<in>set (waitingJobs s).
            LeaseWaitTime (heap (waitTimeout rv cfg s) p) = LeaseWaitTime (heap s p) + 5 * Minute
            \<and> (waitExpired cfg s p \<longrightarrow>
                  TimedOut (heap (waitTimeout rv cfg s) p)
                  \<and> p \<notin> set (waitingJobs (waitTimeout rv cfg s))))
      \<and> events (waitTimeout rv cfg s)
          = events s @ map (waitTimeoutEvent rv s) (filter (waitExpired cfg s) (waitingJobs s)))
   \<and> (distinct jobInstances \<longrightarrow>
        (let s2 = completion rv (admission cfg jobInstances
                    ((tick rv cfg jobInstances ^^ n) (initState h simulationStart)))
         in distinct (waitingJobs s2)
            \<and> set (waitingJobs s2) \<subseteq> set (take (jobIndex s2) jobInstances)))
   \<and> (distinct jobInstances \<and> p \<in> set (take (jobIndex s) jobInstances)
        \<and> p \<notin> set (waitingJobs s) \<longrightarrow>
        (\<forall>m. p \<notin> set (waitingJobs ((tick rv cfg jobInstances ^^ m) s))))
   \<and> (waitingJobs ((tick rv cfg30 [0, 1] ^^ 5) (initState heapLB 0)) = [1]
      \<and> LeaseWaitTime (heap ((tick rv cfg30 [0, 1] ^^ 5) (initState heapLB 0)) 1) = 25 * Minute
      \<and> waitingJobs ((tick rv cfg30 [0, 1] ^^ 6) (initState heapLB 0)) = []
      \<and> LeaseWaitTime (heap ((tick rv cfg30 [0, 1] ^^ 6) (initState heapLB 0)) 1) = 30 * Minute
      \<and> TimedOut (heap ((tick rv cfg30 [0, 1] ^^ 6) (initState heapLB 0)) 1))"
proof -
  have 1: "waitingJobs (waitTimeout rv cfg s) = filter (\<lambda>p. \<not> waitExpired cfg s p) (waitingJobs s)
      \<and> (\<forall>p\<in>set (waitingJobs s).
            LeaseWaitTime (heap (waitTimeout rv cfg s) p) = LeaseWaitTime (heap s p) + 5 * Minute
            \<and> (waitExpired cfg s p \<longrightarrow>
                  TimedOut (heap (waitTimeout rv cfg s) p)
                  \<and> p \<notin> set (waitingJobs (waitTimeout rv cfg s))))
      \<and> events (waitTimeout rv cfg s)
          = events s @ map (waitTimeoutEvent rv s) (filter (waitExpired cfg s) (waitingJobs s))"
    if d: "distinct (waitingJobs s)"
    using waitTimeout_char[OF d, of rv cfg] by simp
  have 2: "let s2 = completion rv (admission cfg jobInstances
                    ((tick rv cfg jobInstances ^^ n) (initState h simulationStart)))
         in distinct (waitingJobs s2)
            \<and> set (waitingJobs s2) \<subseteq> set (take (jobIndex s2) jobInstances)"
    if d: "distinct jobInstances"
  proof -
    let ?s0 = "(tick rv cfg jobInstances ^^ n) (initState h simulationStart)"
    have "ownInv jobInstances (activeJobs ?s0) (waitingJobs ?s0) ?s0"
      by (rule ticks_ownInv[OF d])
    then have "ownInv jobInstances (activeJobs (admission cfg jobInstances ?s0))
        (waitingJobs (admission cfg jobInstances ?s0)) (admission cfg jobInstances ?s0)"
      by (rule admission_ownInv[OF d])
    then have "ownInv jobInstances (activeJobs (completion rv (admission cfg jobInstances ?s0)))
        (waitingJobs (completion rv (admission cfg jobInstances ?s0)))
        (completion rv (admission cfg jobInstances ?s0))"
      by (rule completion_ownInv)
    then show ?thesis by (simp add: Let_def ownInv_def)
  qed
  have 3: "\<forall>m. p \<notin> set (waitingJobs ((tick rv cfg jobInstances ^^ m) s))"
    if "distinct jobInstances \<and> p \<in> set (take (jobIndex s) jobInstances)
        \<and> p \<notin> set (waitingJobs s)"
    using that never_reenters[where jis = jobInstances and p = p and s = s and rv = rv
        and cfg = cfg] by blast
  from 1 2 3 blocked_scenario[of rv] show ?thesis by blast
qed

theorem C4_witness:
  "distinct [0::nat, 1]
   \<and> distinct (waitingJobs ((tick SimulatorGo cfg30 [0, 1] ^^ 6) (initState heapLB 0)))
   \<and> 1 \<in> set (take (jobIndex ((tick SimulatorGo cfg30 [0, 1] ^^ 6) (initState heapLB 0))) [0, 1])
   \<and> 1 \<notin> set (waitingJobs ((tick SimulatorGo cfg30 [0, 1] ^^ 6) (initState heapLB 0)))
   \<and> 1 \<notin> set (waitingJobs
        ((tick SimulatorGo cfg30 [0, 1] ^^ 7) ((tick SimulatorGo cfg30 [0, 1] ^^ 6) (initState heapLB 0))))
   \<and> waitingJobs ((tick SimulatorGo cfg30 [0, 1] ^^ 5) (initState heapLB 0)) = [1]
   \<and> LeaseWaitTime (heap ((tick SimulatorGo cfg30 [0, 1] ^^ 6) (initState heapLB 0)) 1) = 30 * Minute
   \<and> TimedOut (heap ((tick SimulatorGo cfg30 [0, 1] ^^ 6) (initState heapLB 0)) 1)"
proof -
  let ?s = "(tick SimulatorGo cfg30 [0, 1] ^^ 6) (initState heapLB 0)"
  have d: "distinct [0::nat, 1]" by simp
  have w: "waitingJobs ?s = []" and j: "jobIndex ?s = 2"
    by (simp_all add: engine_eval scenario_eval eval_nat_numeral)
  have a: "distinct (waitingJobs ?s)" "1 \<in> set (take (jobIndex ?s) [0, 1])"
    "1 \<notin> set (waitingJobs ?s)"
    unfolding w j by simp_all
  note c = C4_wait_timeout[where s = ?s and rv = SimulatorGo and cfg = cfg30
      and jobInstances = "[0, 1]" and p = 1]
  from c d a have "1 \<notin> set (waitingJobs ((tick SimulatorGo cfg30 [0, 1] ^^ 7) ?s))"
    by blast
  moreover from c have "waitingJobs ((tick SimulatorGo cfg30 [0, 1] ^^ 5) (initState heapLB 0)) = [1]"
    "LeaseWaitTime (heap ?s 1) = 30 * Minute" "TimedOut (heap ?s 1)"
    by blast+
  ultimately show ?thesis using d a by blast
qed

section \<open>The execution-timeout phase\<close>

text \<open>A property of the state that does not read the active slice, the waiting slice or
  the clock is kept by a pass if every step keeps it.\<close>

lemma tick_state_rule:
  assumes "P s"
    and start: "\<And>s job k. P s \<Longrightarrow> P (startJob cfg job (s\<lparr>jobIndex := k\<rparr>))"
    and rel: "\<And>s job. P s \<Longrightarrow> P (release job s)"
    and pro: "\<And>s. P s \<Longrightarrow> P (snd (promote rv s))"
    and addw: "\<And>s job. P s \<Longrightarrow> P (addWait job s)"
    and wexp: "\<And>s job. P s \<Longrightarrow> P (waitExpire rv job s)"
    and eexp: "\<And>s job. P s \<Longrightarrow> \<not> TimedOut (heap s job) \<Longrightarrow> P (execExpire rv cfg job s)"
    and upd: "\<And>s x. P (s\<lparr>activeJobs := x\<rparr>) = P s" "\<And>s x. P (s\<lparr>waitingJobs := x\<rparr>) = P s"
      "\<And>s x. P (s\<lparr>currentTime := x\<rparr>) = P s"
  shows "P (admission cfg jis s)"
    and "P (completion rv (admission cfg jis s))"
    and "P (waitTimeout rv cfg (completion rv (admission cfg jis s)))"
    and "P (execTimeout rv cfg (waitTimeout rv cfg (completion rv (admission cfg jis s))))"
    and "P (tick rv cfg jis s)"
proof -
  show 1: "P (admission cfg jis s)"
    unfolding admission_def
    by (rule startJobs_rule[where P = P]) (simp_all add: assms(1) start)
  have c: "P (completion rv s)" if "P s" for s
  proof -
    have "(\<lambda>(jobs::nat list) (rem::nat list) s. P s) []
        (fst (finishJobs rv (activeJobs s) [] s)) (snd (finishJobs rv (activeJobs s) [] s))"
      by (rule finishJobs_rule[where Q = "\<lambda>(jobs::nat list) (rem::nat list) s. P s"])
         (simp_all add: that rel pro)
    then show ?thesis by (simp add: completion_def case_prod_beta upd)
  qed
  have w: "P (waitTimeout rv cfg s)" if "P s" for s
  proof -
    have "(\<lambda>(jobs::nat list) (rem::nat list) s. P s) []
        (fst (waitTimeouts rv cfg (waitingJobs s) [] s)) (snd (waitTimeouts rv cfg (waitingJobs s) [] s))"
      by (rule waitTimeouts_rule[where Q = "\<lambda>(jobs::nat list) (rem::nat list) s. P s"])
         (simp_all add: that addw wexp)
    then show ?thesis by (simp add: waitTimeout_def case_prod_beta upd)
  qed
  have e: "P (execTimeout rv cfg s)" if "P s" for s
  proof -
    have "(\<lambda>(jobs::nat list) (rem::nat list) s. P s) []
        (fst (execTimeouts rv cfg (activeJobs s) [] s)) (snd (execTimeouts rv cfg (activeJobs s) [] s))"
      by (rule execTimeouts_rule[where Q = "\<lambda>(jobs::nat list) (rem::nat list) s. P s"])
         (simp_all add: that eexp)
    then show ?thesis by (cases rv) (simp_all add: execTimeout_def case_prod_beta upd)
  qed
  show 2: "P (completion rv (admission cfg jis s))" by (rule c[OF 1])
  show 3: "P (waitTimeout rv cfg (completion rv (admission cfg jis s)))" by (rule w[OF 2])
  show 4: "P (execTimeout rv cfg (waitTimeout rv cfg (completion rv (admission cfg jis s))))"
    by (rule e[OF 3])
  then show "P (tick rv cfg jis s)" by (simp add: tick_def Let_def upd)
qed

lemma timedOutJobs_simps [simp]:
  "timedOutJobs [] = []"
  "timedOutJobs (evs @ evs') = timedOutJobs evs @ timedOutJobs evs'"
  "timedOutJobs (e # evs) = (if isExecTimeout e then JobInstance e # timedOutJobs evs
                             else timedOutJobs evs)"
  by (simp_all add: timedOutJobs_def)

lemma isExecTimeout_simps [simp]:
  "isExecTimeout \<lparr>Time = t, Type = ty, JobInstance = p, ActiveLeases = a, Message = m,
                  IsWarning = w\<rparr>
     \<longleftrightarrow> ty = EventTypeJobTimeout \<and> w
          \<and> (case m of MsgExecTimeout name limit \<Rightarrow> True | _ \<Rightarrow> False)"
  by (simp add: isExecTimeout_def)

lemma tick_onceInv:
  assumes "onceInv s"
  shows "onceInv (tick rv cfg jis s)"
proof (rule tick_state_rule(5)[where P = onceInv])
  show "onceInv s" by (rule assms)
next
  fix s job k
  assume "onceInv s"
  then show "onceInv (startJob cfg job (s\<lparr>jobIndex := k\<rparr>))"
    by (cases "activeLeases s < MaxActiveLeases cfg")
       (simp_all add: startJob_jobIndex_upd startJob_admit startJob_wait onceInv_def)
next
  fix s job
  assume "onceInv s" and "\<not> TimedOut (heap s job)"
  then show "onceInv (execExpire rv cfg job s)"
    by (auto simp: onceInv_def)
qed (auto simp: onceInv_def promotedInstance_def split: revision.splits)

lemma ticks_onceInv: "onceInv ((tick rv cfg jis ^^ n) (initState h st))"
proof (induction n)
  case 0
  show ?case by (simp add: onceInv_def initState_def)
next
  case (Suc n)
  then show ?case using tick_onceInv by simp
qed

lemma execTimeouts_char:
  "distinct jobs \<Longrightarrow>
   fst (execTimeouts rv cfg jobs rem s) = rem @ filter (\<lambda>p. \<not> overdue cfg s p) jobs
   \<and> heap (snd (execTimeouts rv cfg jobs rem s)) =
       (\<lambda>p. if p \<in> set jobs \<and> overdue cfg s p then (heap s p)\<lparr>TimedOut := True\<rparr> else heap s p)
   \<and> timedOutJobs (events (snd (execTimeouts rv cfg jobs rem s))) =
       timedOutJobs (events s) @ filter (overdue cfg s) jobs
   \<and> length (events (snd (execTimeouts rv cfg jobs rem s))) =
       length (events s) + length (filter (overdue cfg s) jobs)
   \<and> activeLeases (snd (execTimeouts rv cfg jobs rem s)) =
       (case rv of SimulatorGo \<Rightarrow> activeLeases s
        | EventsGo \<Rightarrow> activeLeases s - int (length (filter (overdue cfg s) jobs)))"
proof (induction jobs arbitrary: rem s)
  case Nil
  then show ?case by (simp split: revision.splits)
next
  case (Cons job jobs)
  then have d: "distinct jobs" and n: "job \<notin> set jobs" by simp_all
  have ne: "p \<noteq> job" if "p \<in> set jobs" for p using that n by blast
  show ?case
  proof (cases "overdue cfg s job")
    case True
    define s1 where "s1 = execExpire rv cfg job s"
    have step: "execTimeouts rv cfg (job # jobs) rem s = execTimeouts rv cfg jobs rem s1"
      using True by (simp add: overdue_def s1_def)
    have same: "\<And>p. p \<noteq> job \<Longrightarrow> heap s1 p = heap s p" by (simp add: s1_def)
    have hj: "heap s1 job = (heap s job)\<lparr>TimedOut := True\<rparr>" by (simp add: s1_def)
    have ct: "currentTime s1 = currentTime s" by (simp add: s1_def)
    have al: "activeLeases s1 = (case rv of SimulatorGo \<Rightarrow> activeLeases s
        | EventsGo \<Rightarrow> activeLeases s - 1)" by (simp add: s1_def)
    have ev: "timedOutJobs (events s1) = timedOutJobs (events s) @ [job]"
      "length (events s1) = Suc (length (events s))"
      by (simp_all add: s1_def)
    have od: "overdue cfg s1 p = overdue cfg s p" if "p \<in> set jobs" for p
      using same[OF ne[OF that]] ct by (simp add: overdue_def)
    have f1: "filter (\<lambda>p. \<not> overdue cfg s1 p) jobs = filter (\<lambda>p. \<not> overdue cfg s p) jobs"
      and f2: "filter (overdue cfg s1) jobs = filter (overdue cfg s) jobs"
      using od by (auto intro: filter_cong)
    note IH = Cons.IH[OF d, of rem s1, unfolded f1 f2]
    have h: "heap (snd (execTimeouts rv cfg jobs rem s1)) p =
       (if p \<in> set (job # jobs) \<and> overdue cfg s p then (heap s p)\<lparr>TimedOut := True\<rparr> else heap s p)"
      for p
    proof (cases "p = job")
      case True
      then show ?thesis using IH n hj \<open>overdue cfg s job\<close> by simp
    next
      case False
      then show ?thesis using IH same[OF False] od[of p] by auto
    qed
    show ?thesis
      unfolding step using IH h True ev al
      by (simp add: fun_eq_iff split: revision.splits)
  next
    case False
    have step: "execTimeouts rv cfg (job # jobs) rem s = execTimeouts rv cfg jobs (rem @ [job]) s"
      using False by (auto simp: overdue_def)
    note IH = Cons.IH[OF d, of "rem @ [job]" s]
    show ?thesis
      unfolding step using IH False n
      by (auto simp: fun_eq_iff split: revision.splits)
  qed
qed

lemma execTimeout_char:
  assumes "distinct (activeJobs s)"
  shows "heap (execTimeout rv cfg s) =
       (\<lambda>p. if p \<in> set (activeJobs s) \<and> overdue cfg s p
             then (heap s p)\<lparr>TimedOut := True\<rparr> else heap s p)"
    and "timedOutJobs (events (execTimeout rv cfg s)) =
       timedOutJobs (events s) @ filter (overdue cfg s) (activeJobs s)"
    and "length (events (execTimeout rv cfg s)) =
       length (events s) + length (filter (overdue cfg s) (activeJobs s))"
    and "activeLeases (execTimeout rv cfg s) =
       (case rv of SimulatorGo \<Rightarrow> activeLeases s
        | EventsGo \<Rightarrow> activeLeases s - int (length (filter (overdue cfg s) (activeJobs s))))"
    and "activeJobs (execTimeout rv cfg s) =
       (case rv of SimulatorGo \<Rightarrow> activeJobs s
        | EventsGo \<Rightarrow> filter (\<lambda>p. \<not> overdue cfg s p) (activeJobs s))"
  using execTimeouts_char[OF assms, of rv cfg "[]" s]
    execTimeouts_frame[of rv cfg "activeJobs s" "[]" s]
  by (cases rv; simp add: execTimeout_def case_prod_beta)+

lemma admission_active_prefix: "prefix (activeJobs s) (activeJobs (admission cfg jis s))"
  unfolding admission_def
proof (rule startJobs_rule[where P = "\<lambda>s'. prefix (activeJobs s) (activeJobs s')"])
  fix s' :: SimState
  assume "prefix (activeJobs s) (activeJobs s')"
  then show "prefix (activeJobs s)
      (activeJobs (startJob cfg (jis ! jobIndex s') (s'\<lparr>jobIndex := jobIndex s' + 1\<rparr>)))"
    using startJob_lists[of cfg "jis ! jobIndex s'" "s'\<lparr>jobIndex := jobIndex s' + 1\<rparr>"]
    by (auto simp: prefix_def)
qed simp

lemma execTimeout_released:
  "releasedJobs (events (execTimeout rv cfg s)) = releasedJobs (events s)"
  using execTimeouts_log[of rv cfg "activeJobs s" "[]" s]
  by (cases rv) (simp_all add: execTimeout_def case_prod_beta)

lemma run_active_distinct:
  assumes d: "distinct jis"
  shows "distinct (activeJobs (waitTimeout rv cfg (completion rv (admission cfg jis
           ((tick rv cfg jis ^^ n) (initState h st))))))"
proof -
  let ?s0 = "(tick rv cfg jis ^^ n) (initState h st)"
  let ?s1 = "admission cfg jis ?s0"
  let ?s2 = "completion rv ?s1"
  let ?s3 = "waitTimeout rv cfg ?s2"
  have "ownInv jis (activeJobs ?s0) (waitingJobs ?s0) ?s0"
    by (rule ticks_ownInv[OF d])
  then have "ownInv jis (activeJobs ?s1) (waitingJobs ?s1) ?s1"
    by (rule admission_ownInv[OF d])
  then have "ownInv jis (activeJobs ?s2) (waitingJobs ?s2) ?s2"
    by (rule completion_ownInv)
  then have "ownInv jis (activeJobs ?s3) (waitingJobs ?s3) ?s3"
    by (rule waitTimeout_ownInv)
  then show ?thesis by (simp add: ownInv_def)
qed

text \<open>
  Claim C2, amended. In both revisions the execution-timeout phase flags \<open>TimedOut\<close>
  every active instance that has run for \<open>JobTimeoutDuration\<close> or longer, counted from its
  \<open>StartTime\<close>, and is not flagged yet, and logs exactly one job-timeout warning for each
  and nothing else; over a whole run no instance is reported twice. In \<open>simulator.go\<close>
  the phase leaves \<open>activeLeases\<close> and the active slice as they are and logs no release:
  the instance keeps its lease, admission and the wait timeout never take an instance off
  the active slice, and only the completion loop releases it. In the revision in
  \<open>events.go\<close> the phase takes one off \<open>activeLeases\<close> for every instance it reports and
  drops the instance from the active slice, so the lease is free at once.
\<close>

theorem C2_execution_timeout:
  "(distinct (activeJobs s) \<longrightarrow>
      heap (execTimeout rv cfg s)
        = (\<lambda>p. if p \<in> set (activeJobs s) \<and> overdue cfg s p
               then (heap s p)\<lparr>TimedOut := True\<rparr> else heap s p)
      \<and> timedOutJobs (events (execTimeout rv cfg s))
          = timedOutJobs (events s) @ filter (overdue cfg s) (activeJobs s)
      \<and> length (events (execTimeout rv cfg s))
          = length (events s) + length (filter (overdue cfg s) (activeJobs s))
      \<and> activeLeases (execTimeout EventsGo cfg s)
          = activeLeases s - int (length (filter (overdue cfg s) (activeJobs s)))
      \<and> activeJobs (execTimeout EventsGo cfg s)
          = filter (\<lambda>p. \<not> overdue cfg s p) (activeJobs s))
   \<and> activeLeases (execTimeout SimulatorGo cfg s) = activeLeases s
   \<and> activeJobs (execTimeout SimulatorGo cfg s) = activeJobs s
   \<and> releasedJobs (events (execTimeout SimulatorGo cfg s)) = releasedJobs (events s)
   \<and> prefix (activeJobs s) (activeJobs (admission cfg jobInstances s))
   \<and> activeJobs (waitTimeout rv cfg s) = activeJobs s
   \<and> distinct (timedOutJobs (events ((tick rv cfg jobInstances ^^ n) (initState h simulationStart))))
   \<and> (distinct jobInstances \<longrightarrow>
        distinct (activeJobs (waitTimeout rv cfg (completion rv (admission cfg jobInstances
           ((tick rv cfg jobInstances ^^ n) (initState h simulationStart)))))))"
proof -
  have 1: "heap (execTimeout rv cfg s)
        = (\<lambda>p. if p \<in> set (activeJobs s) \<and> overdue cfg s p
               then (heap s p)\<lparr>TimedOut := True\<rparr> else heap s p)
      \<and> timedOutJobs (events (execTimeout rv cfg s))
          = timedOutJobs (events s) @ filter (overdue cfg s) (activeJobs s)
      \<and> length (events (execTimeout rv cfg s))
          = length (events s) + length (filter (overdue cfg s) (activeJobs s))
      \<and> activeLeases (execTimeout EventsGo cfg s)
          = activeLeases s - int (length (filter (overdue cfg s) (activeJobs s)))
      \<and> activeJobs (execTimeout EventsGo cfg s)
          = filter (\<lambda>p. \<not> overdue cfg s p) (activeJobs s)"
    if d: "distinct (activeJobs s)"
    using execTimeout_char(1,2,3)[OF d, of rv cfg] execTimeout_char(4,5)[OF d, of EventsGo cfg]
    by simp
  have 2: "activeLeases (execTimeout SimulatorGo cfg s) = activeLeases s
     \<and> activeJobs (execTimeout SimulatorGo cfg s) = activeJobs s"
    using execTimeout_SimulatorGo_frame[of cfg s] by simp
  have 3: "distinct (timedOutJobs (events ((tick rv cfg jobInstances ^^ n) (initState h simulationStart))))"
    using ticks_onceInv[where rv = rv and cfg = cfg and jis = jobInstances and n = n
        and h = h and st = simulationStart] by (simp add: onceInv_def)
  show ?thesis
    using 1 2 3 execTimeout_released[of SimulatorGo cfg s]
      admission_active_prefix[of s cfg jobInstances] waitTimeout_frame[of rv cfg s]
      run_active_distinct[where jis = jobInstances and rv = rv and cfg = cfg and n = n
        and h = h and st = simulationStart]
    by blast
qed

text \<open>The claim as stated fails on the revision in \<open>events.go\<close>: the long job that holds
  the single lease is reported in the fourth pass, fifteen minutes after its start, and that
  phase takes the lease count from 1 to 0 and empties the active slice, though the job
  would end only after an hour and no release is logged.\<close>

theorem C2_counterexample:
  "activeLeases (waitTimeout EventsGo cfgAB (completion EventsGo (admission cfgAB [0, 1]
       ((tick EventsGo cfgAB [0, 1] ^^ 3) (initState heapLB 0))))) = 1
   \<and> activeLeases (execTimeout EventsGo cfgAB
       (waitTimeout EventsGo cfgAB (completion EventsGo (admission cfgAB [0, 1]
         ((tick EventsGo cfgAB [0, 1] ^^ 3) (initState heapLB 0)))))) = 0
   \<and> activeJobs (execTimeout EventsGo cfgAB
       (waitTimeout EventsGo cfgAB (completion EventsGo (admission cfgAB [0, 1]
         ((tick EventsGo cfgAB [0, 1] ^^ 3) (initState heapLB 0)))))) = []
   \<and> timedOutJobs (events ((tick EventsGo cfgAB [0, 1] ^^ 4) (initState heapLB 0))) = [0]
   \<and> releasedJobs (events ((tick EventsGo cfgAB [0, 1] ^^ 4) (initState heapLB 0))) = []
   \<and> EndTime (heap ((tick EventsGo cfgAB [0, 1] ^^ 4) (initState heapLB 0)) 0) = Hour
   \<and> currentTime ((tick EventsGo cfgAB [0, 1] ^^ 3) (initState heapLB 0)) = 15 * Minute"
  by (simp add: engine_eval scenario_eval eval_nat_numeral)

theorem C2_witness:
  "distinct [0::nat, 1]
   \<and> distinct (activeJobs (waitTimeout SimulatorGo cfgAB (completion SimulatorGo
         (admission cfgAB [0, 1] ((tick SimulatorGo cfgAB [0, 1] ^^ 3) (initState heapLB 0))))))
   \<and> overdue cfgAB (waitTimeout SimulatorGo cfgAB (completion SimulatorGo
         (admission cfgAB [0, 1] ((tick SimulatorGo cfgAB [0, 1] ^^ 3) (initState heapLB 0))))) 0
   \<and> timedOutJobs (events (execTimeout SimulatorGo cfgAB
         (waitTimeout SimulatorGo cfgAB (completion SimulatorGo
           (admission cfgAB [0, 1] ((tick SimulatorGo cfgAB [0, 1] ^^ 3) (initState heapLB 0))))))) = [0]
   \<and> activeLeases (execTimeout SimulatorGo cfgAB
         (waitTimeout SimulatorGo cfgAB (completion SimulatorGo
           (admission cfgAB [0, 1] ((tick SimulatorGo cfgAB [0, 1] ^^ 3) (initState heapLB 0)))))) = 1
   \<and> activeJobs (execTimeout SimulatorGo cfgAB
         (waitTimeout SimulatorGo cfgAB (completion SimulatorGo
           (admission cfgAB [0, 1] ((tick SimulatorGo cfgAB [0, 1] ^^ 3) (initState heapLB 0)))))) = [0]
   \<and> timedOutJobs (events ((tick SimulatorGo cfgAB [0, 1] ^^ 8) (initState heapLB 0))) = [0]
   \<and> distinct (timedOutJobs (events ((tick SimulatorGo cfgAB [0, 1] ^^ 8) (initState heapLB 0))))"
proof -
  let ?s = "waitTimeout SimulatorGo cfgAB (completion SimulatorGo
         (admission cfgAB [0, 1] ((tick SimulatorGo cfgAB [0, 1] ^^ 3) (initState heapLB 0))))"
  have d: "distinct [0::nat, 1]" by simp
  have a: "activeJobs ?s = [0]" and l: "activeLeases ?s = 1" and t: "timedOutJobs (events ?s) = []"
    and o: "overdue cfgAB ?s 0"
    by (simp_all add: engine_eval scenario_eval eval_nat_numeral overdue_def)
  have da: "distinct (activeJobs ?s)" unfolding a by simp
  have f: "filter (overdue cfgAB ?s) (activeJobs ?s) = [0]"
    unfolding a using o by simp
  have e8: "timedOutJobs (events ((tick SimulatorGo cfgAB [0, 1] ^^ 8) (initState heapLB 0))) = [0]"
    by (simp add: engine_eval scenario_eval eval_nat_numeral)
  note c = C2_execution_timeout[where s = ?s and rv = SimulatorGo and cfg = cfgAB
      and jobInstances = "[0, 1]" and n = 8 and h = heapLB and simulationStart = 0]
  from c da have "timedOutJobs (events (execTimeout SimulatorGo cfgAB ?s))
      = timedOutJobs (events ?s) @ filter (overdue cfgAB ?s) (activeJobs ?s)"
    by blast
  then have 1: "timedOutJobs (events (execTimeout SimulatorGo cfgAB ?s)) = [0]"
    unfolding f t by simp
  from c have "activeLeases (execTimeout SimulatorGo cfgAB ?s) = activeLeases ?s"
    and "activeJobs (execTimeout SimulatorGo cfgAB ?s) = activeJobs ?s"
    and 4: "distinct (timedOutJobs (events ((tick SimulatorGo cfgAB [0, 1] ^^ 8) (initState heapLB 0))))"
    by blast+
  then have 2: "activeLeases (execTimeout SimulatorGo cfgAB ?s) = 1"
    and 3: "activeJobs (execTimeout SimulatorGo cfgAB ?s) = [0]"
    unfolding a l by simp_all
  from d da o 1 2 3 e8 4 show ?thesis by blast
qed

section \<open>Promotion\<close>

lemma completion_promotes:
  "\<exists>k. k = min (length (releasedJobs (events (completion rv s))) - length (releasedJobs (events s)))
              (length (waitingJobs s))
       \<and> waitingJobs (completion rv s) = drop k (waitingJobs s)
       \<and> promotedJobs (events (completion rv s)) = promotedJobs (events s) @ take k (waitingJobs s)
       \<and> set (take k (waitingJobs s)) \<subseteq> set (activeJobs (completion rv s))
       \<and> heap (completion rv s) =
           (\<lambda>p. if p \<in> set (take k (waitingJobs s))
                then promotedInstance rv (currentTime s) (heap s p) else heap s p)"
proof -
  obtain k where "finishInv rv s k (activeJobs (completion rv s)) (completion rv s)"
    using completion_finishInv by blast
  then show ?thesis
    unfolding finishInv_def by blast
qed

text \<open>
  Claim C3, amended. In both revisions, whenever the completion loop releases the lease of
  a finished job while the waiting slice is not empty, it takes the head off the waiting
  slice, sets its \<open>EndTime\<close> to the current time plus the duration of its job, flags it
  \<open>LeaseAcquired\<close>, counts the lease again, appends it to the jobs that stay active and
  logs a lease-acquired event whose message reports the accumulated wait. Over the whole
  phase the promoted instances are a prefix of the waiting slice, one for each release
  while instances wait, and no other instance is rewritten. In \<open>simulator.go\<close> the
  promotion also sets \<open>StartTime\<close> to the current time, so the execution-timeout clock
  restarts at the promotion. In the revision in \<open>events.go\<close> that assignment is commented
  out: \<open>StartTime\<close> stays the scheduled start and the execution-timeout clock keeps running
  from it.
\<close>

theorem C3_promotion:
  "(EndTime (heap s job) \<le> currentTime s \<and> waitingJobs s \<noteq> [] \<longrightarrow>
      finishJobs rv (job # jobs) rem s
        = finishJobs rv jobs (rem @ [hd (waitingJobs s)]) (snd (promote rv (release job s)))
      \<and> waitingJobs (snd (promote rv (release job s))) = tl (waitingJobs s)
      \<and> heap (snd (promote rv (release job s)))
          = (heap s)(hd (waitingJobs s) :=
               promotedInstance rv (currentTime s) (heap s (hd (waitingJobs s))))
      \<and> activeLeases (snd (promote rv (release job s))) = activeLeases s - 1 + 1
      \<and> events (snd (promote rv (release job s)))
          = events s @
            [\<lparr>Time = currentTime s, Type = EventTypeLeaseReleased, JobInstance = job,
               ActiveLeases = activeLeases s - 1,
               Message = MsgReleased (Name (Job (heap s job))), IsWarning = False\<rparr>,
             \<lparr>Time = currentTime s, Type = EventTypeLeaseAcquired,
               JobInstance = hd (waitingJobs s), ActiveLeases = activeLeases s - 1 + 1,
               Message = MsgAcquiredAfterWaiting (Name (Job (heap s (hd (waitingJobs s)))))
                           (LeaseWaitTime (heap s (hd (waitingJobs s)))),
               IsWarning = False\<rparr>])
   \<and> EndTime (promotedInstance rv now j) = now + Duration (Job j)
   \<and> LeaseAcquired (promotedInstance rv now j)
   \<and> Job (promotedInstance rv now j) = Job j
   \<and> StartTime (promotedInstance SimulatorGo now j) = now
   \<and> StartTime (promotedInstance EventsGo now j) = StartTime j
   \<and> (\<exists>k. k = min (length (releasedJobs (events (completion rv s)))
                      - length (releasedJobs (events s)))
                   (length (waitingJobs s))
          \<and> waitingJobs (completion rv s) = drop k (waitingJobs s)
          \<and> promotedJobs (events (completion rv s))
              = promotedJobs (events s) @ take k (waitingJobs s)
          \<and> set (take k (waitingJobs s)) \<subseteq> set (activeJobs (completion rv s))
          \<and> heap (completion rv s) =
              (\<lambda>p. if p \<in> set (take k (waitingJobs s))
                   then promotedInstance rv (currentTime s) (heap s p) else heap s p))"
proof -
  have 1: "finishJobs rv (job # jobs) rem s
        = finishJobs rv jobs (rem @ [hd (waitingJobs s)]) (snd (promote rv (release job s)))"
    if "EndTime (heap s job) \<le> currentTime s \<and> waitingJobs s \<noteq> []"
    using that by (simp add: Let_def case_prod_beta)
  have 2: "EndTime (promotedInstance rv now j) = now + Duration (Job j)
   \<and> LeaseAcquired (promotedInstance rv now j)
   \<and> Job (promotedInstance rv now j) = Job j
   \<and> StartTime (promotedInstance SimulatorGo now j) = now
   \<and> StartTime (promotedInstance EventsGo now j) = StartTime j"
    by (cases rv) (simp_all add: promotedInstance_def)
  show ?thesis
    using 1 2 completion_promotes[of rv s] by simp
qed

text \<open>The claim as stated fails on the revision in \<open>events.go\<close>: the second job is promoted
  ten minutes after its scheduled start and keeps that start as its \<open>StartTime\<close>; five
  minutes later it is reported for having run the fifteen minutes of the timeout.\<close>

theorem C3_counterexample:
  "events ((tick EventsGo cfgAB [0, 1] ^^ 4) (initState heapAB 0)) ! 3
     = \<lparr>Time = 10 * Minute, Type = EventTypeLeaseAcquired, JobInstance = 1, ActiveLeases = 1,
        Message = MsgAcquiredAfterWaiting ''B'' (10 * Minute), IsWarning = False\<rparr>
   \<and> StartTime (heap ((tick EventsGo cfgAB [0, 1] ^^ 3) (initState heapAB 0)) 1) = 0
   \<and> EndTime (heap ((tick EventsGo cfgAB [0, 1] ^^ 3) (initState heapAB 0)) 1) = 20 * Minute
   \<and> last (events ((tick EventsGo cfgAB [0, 1] ^^ 4) (initState heapAB 0)))
     = \<lparr>Time = 15 * Minute, Type = EventTypeJobTimeout, JobInstance = 1, ActiveLeases = 0,
        Message = MsgExecTimeout ''B'' (15 * Minute), IsWarning = True\<rparr>
   \<and> 15 * Minute - 10 * Minute < JobTimeoutDuration cfgAB"
  by (simp add: engine_eval eval_nat_numeral)

theorem C3_witness:
  "EndTime (heap (admission cfgAB [0, 1] ((tick SimulatorGo cfgAB [0, 1] ^^ 2) (initState heapAB 0))) 0)
     \<le> currentTime (admission cfgAB [0, 1] ((tick SimulatorGo cfgAB [0, 1] ^^ 2) (initState heapAB 0)))
   \<and> waitingJobs (admission cfgAB [0, 1] ((tick SimulatorGo cfgAB [0, 1] ^^ 2) (initState heapAB 0))) = [1]
   \<and> currentTime (admission cfgAB [0, 1] ((tick SimulatorGo cfgAB [0, 1] ^^ 2) (initState heapAB 0)))
       = 10 * Minute
   \<and> waitingJobs (snd (promote SimulatorGo (release 0
         (admission cfgAB [0, 1] ((tick SimulatorGo cfgAB [0, 1] ^^ 2) (initState heapAB 0)))))) = []
   \<and> StartTime (heap (snd (promote SimulatorGo (release 0
         (admission cfgAB [0, 1] ((tick SimulatorGo cfgAB [0, 1] ^^ 2) (initState heapAB 0)))))) 1)
       = 10 * Minute
   \<and> EndTime (heap (snd (promote SimulatorGo (release 0
         (admission cfgAB [0, 1] ((tick SimulatorGo cfgAB [0, 1] ^^ 2) (initState heapAB 0)))))) 1)
       = 20 * Minute
   \<and> activeLeases (snd (promote SimulatorGo (release 0
         (admission cfgAB [0, 1] ((tick SimulatorGo cfgAB [0, 1] ^^ 2) (initState heapAB 0)))))) = 1"
proof -
  let ?s = "admission cfgAB [0, 1] ((tick SimulatorGo cfgAB [0, 1] ^^ 2) (initState heapAB 0))"
  have e: "EndTime (heap ?s 0) = 10 * Minute" and c: "currentTime ?s = 10 * Minute"
    and w: "waitingJobs ?s = [1]" and a: "activeLeases ?s = 1"
    and j: "Duration (Job (heap ?s 1)) = 10 * Minute"
    by (simp_all add: engine_eval eval_nat_numeral)
  have h: "EndTime (heap ?s 0) \<le> currentTime ?s \<and> waitingJobs ?s \<noteq> []"
    unfolding e c w by simp
  note t = C3_promotion[where s = ?s and job = 0 and rv = SimulatorGo
      and now = "currentTime ?s" and j = "heap ?s 1"]
  from t h have 1: "waitingJobs (snd (promote SimulatorGo (release 0 ?s))) = tl (waitingJobs ?s)"
    and 2: "heap (snd (promote SimulatorGo (release 0 ?s)))
          = (heap ?s)(hd (waitingJobs ?s) :=
               promotedInstance SimulatorGo (currentTime ?s) (heap ?s (hd (waitingJobs ?s))))"
    and 3: "activeLeases (snd (promote SimulatorGo (release 0 ?s))) = activeLeases ?s - 1 + 1"
    by blast+
  from t have 4: "StartTime (promotedInstance SimulatorGo (currentTime ?s) (heap ?s 1)) = currentTime ?s"
    and 5: "EndTime (promotedInstance SimulatorGo (currentTime ?s) (heap ?s 1))
         = currentTime ?s + Duration (Job (heap ?s 1))"
    by blast+
  have "StartTime (heap (snd (promote SimulatorGo (release 0 ?s))) 1) = 10 * Minute"
    unfolding 2 w using 4 c by simp
  moreover have "EndTime (heap (snd (promote SimulatorGo (release 0 ?s))) 1) = 20 * Minute"
    unfolding 2 w using 5 c j by simp
  moreover have "waitingJobs (snd (promote SimulatorGo (release 0 ?s))) = []"
    unfolding 1 w by simp
  moreover have "activeLeases (snd (promote SimulatorGo (release 0 ?s))) = 1"
    unfolding 3 a by simp
  ultimately show ?thesis using e c w by simp
qed

section \<open>Promotion happens at a completion only\<close>

lemma admission_log:
  "promotedJobs (events (admission cfg jis s)) = promotedJobs (events s)
   \<and> releasedJobs (events (admission cfg jis s)) = releasedJobs (events s)"
  unfolding admission_def
proof (rule startJobs_rule[where P = "\<lambda>s'. promotedJobs (events s') = promotedJobs (events s)
   \<and> releasedJobs (events s') = releasedJobs (events s)"])
  fix s' :: SimState
  assume "promotedJobs (events s') = promotedJobs (events s)
     \<and> releasedJobs (events s') = releasedJobs (events s)"
  then show "promotedJobs (events (startJob cfg (jis ! jobIndex s') (s'\<lparr>jobIndex := jobIndex s' + 1\<rparr>)))
       = promotedJobs (events s)
     \<and> releasedJobs (events (startJob cfg (jis ! jobIndex s') (s'\<lparr>jobIndex := jobIndex s' + 1\<rparr>)))
       = releasedJobs (events s)"
    by (cases "activeLeases s' < MaxActiveLeases cfg")
       (simp_all add: startJob_jobIndex_upd startJob_admit startJob_wait)
qed simp

lemma admission_active_from_pending:
  "\<exists>xs. activeJobs (admission cfg jis s) = activeJobs s @ xs
        \<and> set xs \<subseteq> set (drop (jobIndex s) jis)"
  unfolding admission_def
proof (rule startJobs_rule[where P = "\<lambda>s'. jobIndex s \<le> jobIndex s'
     \<and> (\<exists>xs. activeJobs s' = activeJobs s @ xs \<and> set xs \<subseteq> set (drop (jobIndex s) jis))",
     THEN conjunct2])
  fix s' :: SimState
  assume a: "jobIndex s \<le> jobIndex s'
     \<and> (\<exists>xs. activeJobs s' = activeJobs s @ xs \<and> set xs \<subseteq> set (drop (jobIndex s) jis))"
    and l: "jobIndex s' < length jis"
  let ?job = "jis ! jobIndex s'"
  let ?s'' = "startJob cfg ?job (s'\<lparr>jobIndex := jobIndex s' + 1\<rparr>)"
  from a obtain xs where xs: "activeJobs s' = activeJobs s @ xs"
      "set xs \<subseteq> set (drop (jobIndex s) jis)" by blast
  have m: "?job \<in> set (drop (jobIndex s) jis)"
    using a l by (simp add: nth_in_drop)
  have "activeJobs ?s'' = activeJobs s @ xs \<or> activeJobs ?s'' = activeJobs s @ (xs @ [?job])"
    using startJob_lists[of cfg ?job "s'\<lparr>jobIndex := jobIndex s' + 1\<rparr>"] xs(1) by auto
  moreover have "set (xs @ [?job]) \<subseteq> set (drop (jobIndex s) jis)"
    using xs(2) m by simp
  ultimately have "\<exists>ys. activeJobs ?s'' = activeJobs s @ ys \<and> set ys \<subseteq> set (drop (jobIndex s) jis)"
    using xs(2) by blast
  moreover have "jobIndex s \<le> jobIndex ?s''"
    using a by (simp add: startJob_jobIndex_upd)
  ultimately show "jobIndex s \<le> jobIndex ?s''
     \<and> (\<exists>xs. activeJobs ?s'' = activeJobs s @ xs \<and> set xs \<subseteq> set (drop (jobIndex s) jis))"
    by blast
qed simp

lemma waitTimeout_log:
  "promotedJobs (events (waitTimeout rv cfg s)) = promotedJobs (events s)
   \<and> releasedJobs (events (waitTimeout rv cfg s)) = releasedJobs (events s)"
  using waitTimeouts_log[of rv cfg "waitingJobs s" "[]" s]
  by (simp add: waitTimeout_def case_prod_beta)

lemma execTimeout_log:
  "promotedJobs (events (execTimeout rv cfg s)) = promotedJobs (events s)
   \<and> releasedJobs (events (execTimeout rv cfg s)) = releasedJobs (events s)"
  using execTimeouts_log[of rv cfg "activeJobs s" "[]" s]
  by (cases rv) (simp_all add: execTimeout_def case_prod_beta)

lemma tick_promotions:
  "\<exists>k. k = min (length (releasedJobs (events (tick rv cfg jis s)))
                 - length (releasedJobs (events s)))
              (length (waitingJobs (admission cfg jis s)))
       \<and> promotedJobs (events (tick rv cfg jis s))
           = promotedJobs (events s) @ take k (waitingJobs (admission cfg jis s))"
proof -
  let ?s1 = "admission cfg jis s"
  let ?s2 = "completion rv ?s1"
  let ?s3 = "waitTimeout rv cfg ?s2"
  let ?s4 = "execTimeout rv cfg ?s3"
  have e: "events (tick rv cfg jis s) = events ?s4"
    by (simp add: tick_def Let_def)
  have p: "promotedJobs (events ?s4) = promotedJobs (events ?s2)"
    and r: "releasedJobs (events ?s4) = releasedJobs (events ?s2)"
    using execTimeout_log[of rv cfg ?s3] waitTimeout_log[of rv cfg ?s2] by simp_all
  have p1: "promotedJobs (events ?s1) = promotedJobs (events s)"
    and r1: "releasedJobs (events ?s1) = releasedJobs (events s)"
    using admission_log[of cfg jis s] by simp_all
  from completion_promotes[of rv ?s1] show ?thesis
    unfolding e p r p1 r1 by blast
qed

text \<open>
  Claim C10, on the revision in \<open>events.go\<close>. In a pass the instances promoted from the
  waiting slice are a prefix of the waiting slice as it stands after admission, one for
  each release of that pass while instances wait; releases are logged by the completion
  loop only. The execution timeout frees a lease for every instance it reports, yet it
  leaves the waiting slice as it is and adds nothing to the active slice. Admission
  appends to the active slice only instances taken from the pending part of the instance
  slice and keeps the instances already waiting on the waiting slice, and the wait
  timeout does not touch the active slice. So a waiting instance can time out while a
  lease is free: with a single lease, a long job that is reported for its execution
  timeout after fifteen minutes frees the lease, and the job that waits behind it stays
  waiting with no lease in use and times out in the sixth pass.
\<close>

theorem C10_promotion_needs_completion:
  "(\<exists>k. k = min (length (releasedJobs (events (tick EventsGo cfg jobInstances s)))
                  - length (releasedJobs (events s)))
               (length (waitingJobs (admission cfg jobInstances s)))
        \<and> promotedJobs (events (tick EventsGo cfg jobInstances s))
            = promotedJobs (events s) @ take k (waitingJobs (admission cfg jobInstances s)))
   \<and> releasedJobs (events (admission cfg jobInstances s)) = releasedJobs (events s)
   \<and> releasedJobs (events (waitTimeout EventsGo cfg s)) = releasedJobs (events s)
   \<and> releasedJobs (events (execTimeout EventsGo cfg s)) = releasedJobs (events s)
   \<and> (distinct (activeJobs s) \<longrightarrow>
        activeLeases (execTimeout EventsGo cfg s)
          = activeLeases s - int (length (filter (overdue cfg s) (activeJobs s))))
   \<and> waitingJobs (execTimeout EventsGo cfg s) = waitingJobs s
   \<and> subseq (activeJobs (execTimeout EventsGo cfg s)) (activeJobs s)
   \<and> promotedJobs (events (execTimeout EventsGo cfg s)) = promotedJobs (events s)
   \<and> (\<exists>xs. activeJobs (admission cfg jobInstances s) = activeJobs s @ xs
          \<and> set xs \<subseteq> set (drop (jobIndex s) jobInstances))
   \<and> prefix (waitingJobs s) (waitingJobs (admission cfg jobInstances s))
   \<and> promotedJobs (events (admission cfg jobInstances s)) = promotedJobs (events s)
   \<and> activeJobs (waitTimeout EventsGo cfg s) = activeJobs s
   \<and> promotedJobs (events (waitTimeout EventsGo cfg s)) = promotedJobs (events s)
   \<and> (activeLeases ((tick EventsGo cfgAB [0, 1] ^^ 4) (initState heapLB 0)) = 0
      \<and> waitingJobs ((tick EventsGo cfgAB [0, 1] ^^ 4) (initState heapLB 0)) = [1]
      \<and> activeLeases ((tick EventsGo cfgAB [0, 1] ^^ 5) (initState heapLB 0)) = 0
      \<and> waitingJobs ((tick EventsGo cfgAB [0, 1] ^^ 5) (initState heapLB 0)) = [1]
      \<and> waitingJobs ((tick EventsGo cfgAB [0, 1] ^^ 6) (initState heapLB 0)) = []
      \<and> promotedJobs (events ((tick EventsGo cfgAB [0, 1] ^^ 6) (initState heapLB 0))) = []
      \<and> last (events ((tick EventsGo cfgAB [0, 1] ^^ 6) (initState heapLB 0)))
          = \<lparr>Time = 25 * Minute, Type = EventTypeJobTimeout, JobInstance = 1, ActiveLeases = 0,
             Message = MsgWaitTimeoutReleased ''B'' (30 * Minute), IsWarning = True\<rparr>
      \<and> ActiveLeases (last (events ((tick EventsGo cfgAB [0, 1] ^^ 6) (initState heapLB 0))))
          < MaxActiveLeases cfgAB)"
proof -
  have sc: "activeLeases ((tick EventsGo cfgAB [0, 1] ^^ 4) (initState heapLB 0)) = 0
      \<and> waitingJobs ((tick EventsGo cfgAB [0, 1] ^^ 4) (initState heapLB 0)) = [1]
      \<and> activeLeases ((tick EventsGo cfgAB [0, 1] ^^ 5) (initState heapLB 0)) = 0
      \<and> waitingJobs ((tick EventsGo cfgAB [0, 1] ^^ 5) (initState heapLB 0)) = [1]
      \<and> waitingJobs ((tick EventsGo cfgAB [0, 1] ^^ 6) (initState heapLB 0)) = []
      \<and> promotedJobs (events ((tick EventsGo cfgAB [0, 1] ^^ 6) (initState heapLB 0))) = []
      \<and> last (events ((tick EventsGo cfgAB [0, 1] ^^ 6) (initState heapLB 0)))
          = \<lparr>Time = 25 * Minute, Type = EventTypeJobTimeout, JobInstance = 1, ActiveLeases = 0,
             Message = MsgWaitTimeoutReleased ''B'' (30 * Minute), IsWarning = True\<rparr>
      \<and> ActiveLeases (last (events ((tick EventsGo cfgAB [0, 1] ^^ 6) (initState heapLB 0))))
          < MaxActiveLeases cfgAB"
    by (simp add: engine_eval scenario_eval eval_nat_numeral)
  have ex: "activeLeases (execTimeout EventsGo cfg s)
          = activeLeases s - int (length (filter (overdue cfg s) (activeJobs s)))"
    if d: "distinct (activeJobs s)"
    using execTimeout_char(4)[OF d, of EventsGo cfg] by simp
  show ?thesis
    using tick_promotions[of EventsGo cfg jobInstances s] admission_log[of cfg jobInstances s]
      waitTimeout_log[of EventsGo cfg s] execTimeout_log[of EventsGo cfg s] ex
      execTimeout_lists[of EventsGo cfg s] admission_active_from_pending[of cfg jobInstances s]
      admission_waiting_prefix[of s cfg jobInstances] waitTimeout_frame[of EventsGo cfg s] sc
    by blast
qed

theorem C10_witness:
  "distinct (activeJobs (waitTimeout EventsGo cfgAB (completion EventsGo (admission cfgAB [0, 1]
       ((tick EventsGo cfgAB [0, 1] ^^ 3) (initState heapLB 0))))))
   \<and> filter (overdue cfgAB (waitTimeout EventsGo cfgAB (completion EventsGo (admission cfgAB [0, 1]
               ((tick EventsGo cfgAB [0, 1] ^^ 3) (initState heapLB 0))))))
        (activeJobs (waitTimeout EventsGo cfgAB (completion EventsGo (admission cfgAB [0, 1]
               ((tick EventsGo cfgAB [0, 1] ^^ 3) (initState heapLB 0)))))) = [0]
   \<and> activeLeases (waitTimeout EventsGo cfgAB (completion EventsGo (admission cfgAB [0, 1]
       ((tick EventsGo cfgAB [0, 1] ^^ 3) (initState heapLB 0))))) = 1
   \<and> activeLeases (execTimeout EventsGo cfgAB (waitTimeout EventsGo cfgAB (completion EventsGo
       (admission cfgAB [0, 1] ((tick EventsGo cfgAB [0, 1] ^^ 3) (initState heapLB 0)))))) = 0
   \<and> waitingJobs (execTimeout EventsGo cfgAB (waitTimeout EventsGo cfgAB (completion EventsGo
       (admission cfgAB [0, 1] ((tick EventsGo cfgAB [0, 1] ^^ 3) (initState heapLB 0)))))) = [1]
   \<and> waitingJobs ((tick EventsGo cfgAB [0, 1] ^^ 6) (initState heapLB 0)) = []
   \<and> promotedJobs (events ((tick EventsGo cfgAB [0, 1] ^^ 6) (initState heapLB 0))) = []"
proof -
  let ?s = "waitTimeout EventsGo cfgAB (completion EventsGo (admission cfgAB [0, 1]
       ((tick EventsGo cfgAB [0, 1] ^^ 3) (initState heapLB 0))))"
  have a: "activeJobs ?s = [0]" and l: "activeLeases ?s = 1" and w: "waitingJobs ?s = [1]"
    and o: "overdue cfgAB ?s 0"
    by (simp_all add: engine_eval scenario_eval eval_nat_numeral overdue_def)
  have da: "distinct (activeJobs ?s)" unfolding a by simp
  have f: "filter (overdue cfgAB ?s) (activeJobs ?s) = [0]"
    unfolding a using o by simp
  note c = C10_promotion_needs_completion[where s = ?s and cfg = cfgAB
      and jobInstances = "[0, 1]"]
  from c da have "activeLeases (execTimeout EventsGo cfgAB ?s)
          = activeLeases ?s - int (length (filter (overdue cfgAB ?s) (activeJobs ?s)))"
    by blast
  then have 1: "activeLeases (execTimeout EventsGo cfgAB ?s) = 0"
    unfolding f l by simp
  from c have "waitingJobs (execTimeout EventsGo cfgAB ?s) = waitingJobs ?s"
    and 3: "waitingJobs ((tick EventsGo cfgAB [0, 1] ^^ 6) (initState heapLB 0)) = []"
    and 4: "promotedJobs (events ((tick EventsGo cfgAB [0, 1] ^^ 6) (initState heapLB 0))) = []"
    by blast+
  then have 2: "waitingJobs (execTimeout EventsGo cfgAB ?s) = [1]"
    unfolding w by simp
  from da f l 1 2 3 4 show ?thesis by blast
qed


section \<open>The order of the generated instances\<close>

lemma sorted_wrt_not_less_iff:
  "sorted_wrt (\<lambda>a b. \<not> f b < f a) ys \<longleftrightarrow> sorted (map (f :: 'a \<Rightarrow> int) ys)"
  by (induction ys) (auto simp: not_less)

lemma sortJobInstances_iff:
  "sortJobInstances h xs ys \<longleftrightarrow> mset ys = mset xs \<and> sorted (map (\<lambda>p. StartTime (h p)) ys)"
  by (simp add: sortJobInstances_def sortSlice_def sorted_wrt_not_less_iff)

text \<open>The order that keeps ties as generated is one of the outcomes.\<close>

lemma sortJobInstances_stable_outcome:
  "sortJobInstances h xs (sort_key (\<lambda>p. StartTime (h p)) xs)"
  by (simp add: sortJobInstances_iff)

text \<open>
  Claim C7, as amended. Whatever order the sorting step of \<open>Run\<close> leaves, the instances
  are the generated ones, each as often as generated, in ascending order of start time.
  When no two generated instances share a start time this is the only such order, so it is
  the one a stable sort gives. For instances that share a start time nothing more holds:
  the comparison does not distinguish them and the sort need not keep them as generated.
\<close>

theorem C7_sorted_by_start_time:
  assumes "sortJobInstances h jobInstances sortedInstances"
  shows "mset sortedInstances = mset jobInstances
       \<and> sorted (map (\<lambda>p. StartTime (h p)) sortedInstances)
       \<and> (distinct (map (\<lambda>p. StartTime (h p)) jobInstances) \<longrightarrow>
            sortedInstances = sort_key (\<lambda>p. StartTime (h p)) jobInstances)"
proof -
  from assms have m: "mset sortedInstances = mset jobInstances"
    and s: "sorted (map (\<lambda>p. StartTime (h p)) sortedInstances)"
    by (simp_all add: sortJobInstances_iff)
  have "sortedInstances = sort_key (\<lambda>p. StartTime (h p)) jobInstances"
    if d: "distinct (map (\<lambda>p. StartTime (h p)) jobInstances)"
  proof -
    from d have "inj_on (\<lambda>p. StartTime (h p)) (set jobInstances)"
      by (simp add: distinct_map)
    with m s show ?thesis
      using sort_key_inj_key_eq [of jobInstances sortedInstances "\<lambda>p. StartTime (h p)"]
      by simp
  qed
  with m s show ?thesis by blast
qed

text \<open>The claim as stated fails on the two jobs that share their schedule: the order
  below is sorted by start time and holds the generated instances, and at 12 hours it
  has the run of the second job before the run of the first.\<close>

theorem C7_counterexample:
  "sortJobInstances heap14 [0, 1, 2, 3, 4, 5, 6, 7, 8, 9, 10, 11, 12, 13]
                           [7, 0, 1, 8, 2, 9, 3, 10, 4, 11, 5, 12, 6, 13]
   \<and> filter (\<lambda>p. StartTime (heap14 p) = 12 * Hour)
        [0, 1, 2, 3, 4, 5, 6, 7, 8, 9, 10, 11, 12, 13] = [0, 7]
   \<and> filter (\<lambda>p. StartTime (heap14 p) = 12 * Hour)
        [7, 0, 1, 8, 2, 9, 3, 10, 4, 11, 5, 12, 6, 13] = [7, 0]
   \<and> sort_key (\<lambda>p. StartTime (heap14 p)) [0, 1, 2, 3, 4, 5, 6, 7, 8, 9, 10, 11, 12, 13]
       = [0, 7, 1, 8, 2, 9, 3, 10, 4, 11, 5, 12, 6, 13]"
  by (simp add: sortJobInstances_iff heap14_def newInstance_def Hour_def Minute_def
      add_mset_commute)

text \<open>The amended statement on the two jobs with different schedules: the instance at
  6 hours, generated last, comes first.\<close>

theorem C7_witness:
  "sortJobInstances heap3 [0, 1, 2] [2, 0, 1]
   \<and> distinct (map (\<lambda>p. StartTime (heap3 p)) [0, 1, 2])
   \<and> mset [2, 0, 1] = mset [0, 1, 2::nat]
   \<and> sorted (map (\<lambda>p. StartTime (heap3 p)) [2, 0, 1])
   \<and> [2, 0, 1] = sort_key (\<lambda>p. StartTime (heap3 p)) [0, 1, 2]"
proof -
  have a: "sortJobInstances heap3 [0, 1, 2] [2, 0, 1]"
    by (simp add: sortJobInstances_iff heap3_def newInstance_def Hour_def Minute_def
        add_mset_commute)
  have d: "distinct (map (\<lambda>p. StartTime (heap3 p)) [0, 1, 2])"
    by (simp add: heap3_def newInstance_def Hour_def Minute_def)
  from C7_sorted_by_start_time [OF a] d a show ?thesis by blast
qed

end
